theory Spec2Isabelle
  imports
    Complex_Main
    "HOL-Library.Finite_Map"
    "HOL-Library.Log_Nat"
    "HOL-Library.Multiset"
    "HOL-Library.Signed_Division"
begin

section \<open>Data model\<close>

subsection \<open>Numbers and instants\<close>

text \<open>
  Go's \<^verbatim>\<open>int\<close> and \<^verbatim>\<open>int64\<close> are modelled as \<^typ>\<open>int\<close>, with no wrap-around
  (nor the saturation of \<^verbatim>\<open>time.Time.Sub\<close>). With stored timestamps, in milliseconds
  since the epoch, below \<open>2^52\<close> in magnitude no integer of the density check leaves the
  64-bit range and every \<^verbatim>\<open>float64\<close> step of the average interval is exact; the
  general statements about the density check carry that bound.
\<close>

text \<open>
  The rounding of IEEE 754 binary64, to nearest with ties to even: \<open>round64 x\<close> is the
  \<^verbatim>\<open>float64\<close> nearest to the real \<open>x\<close>. The exponent of \<open>x\<close> is the \<open>e\<close> with
  \<open>2^e \<le> |x| < 2^(e+1)\<close>, and not less than \<open>-1022\<close> (the subnormal numbers); the
  significand has 53 bits, so the unit in the last place is \<open>2^(e-52)\<close>. Overflow to an
  infinity (from \<open>2^1024\<close>) is not modelled.
\<close>

definition round_even :: "real \<Rightarrow> int" where
  "round_even y =
     (let f = \<lfloor>y\<rfloor>; r = y - of_int f
      in if r < 1 / 2 then f else if 1 / 2 < r then f + 1 else if even f then f else f + 1)"

fun exponent_down :: "nat \<Rightarrow> real \<Rightarrow> int" where
  "exponent_down 0 y = 0"
| "exponent_down (Suc k) y = (if 1 \<le> y then 0 else exponent_down k (2 * y) - 1)"

definition exponent :: "real \<Rightarrow> int" where
  "exponent x =
     (if 1 \<le> \<bar>x\<bar> then bitlen \<lfloor>\<bar>x\<bar>\<rfloor> - 1 else exponent_down 1022 \<bar>x\<bar>)"

definition pow2 :: "int \<Rightarrow> real" where
  "pow2 e = (if 0 \<le> e then 2 ^ nat e else 1 / 2 ^ nat (- e))"

definition round64 :: "real \<Rightarrow> real" where
  "round64 x = (let u = pow2 (exponent x - 52) in of_int (round_even (x / u)) * u)"

text \<open>
  A \<^verbatim>\<open>float64\<close> is a real number or one of the three IEEE special values. The
  conversion of an integer rounds, and so does every operation of the average interval
  (\<open>sumOfIntervals\<close> and \<open>averageInterval\<close> below). The four operations and the cosine
  of the blend are exact on the finite values (their rounding is not modelled:
  \<^verbatim>\<open>math.Cos\<close> is not specified to the last bit) and follow IEEE 754 on the special
  values. Zeros carry no sign: a zero divisor is the positive zero, which is what the sum
  of two converted integers is.
\<close>

datatype float64 = Fin real | PInf | NInf | NaN

fun fneg :: "float64 \<Rightarrow> float64" where
  "fneg (Fin a) = Fin (- a)"
| "fneg PInf = NInf"
| "fneg NInf = PInf"
| "fneg NaN = NaN"

fun fadd :: "float64 \<Rightarrow> float64 \<Rightarrow> float64" where
  "fadd NaN _ = NaN"
| "fadd _ NaN = NaN"
| "fadd (Fin a) (Fin b) = Fin (a + b)"
| "fadd PInf NInf = NaN"
| "fadd NInf PInf = NaN"
| "fadd PInf _ = PInf"
| "fadd _ PInf = PInf"
| "fadd NInf _ = NInf"
| "fadd _ NInf = NInf"

definition fsub :: "float64 \<Rightarrow> float64 \<Rightarrow> float64" where
  "fsub a b = fadd a (fneg b)"

fun fmul :: "float64 \<Rightarrow> float64 \<Rightarrow> float64" where
  "fmul NaN _ = NaN"
| "fmul _ NaN = NaN"
| "fmul (Fin a) (Fin b) = Fin (a * b)"
| "fmul PInf (Fin b) = (if b = 0 then NaN else if 0 < b then PInf else NInf)"
| "fmul NInf (Fin b) = (if b = 0 then NaN else if 0 < b then NInf else PInf)"
| "fmul (Fin a) PInf = (if a = 0 then NaN else if 0 < a then PInf else NInf)"
| "fmul (Fin a) NInf = (if a = 0 then NaN else if 0 < a then NInf else PInf)"
| "fmul PInf PInf = PInf"
| "fmul PInf NInf = NInf"
| "fmul NInf PInf = NInf"
| "fmul NInf NInf = PInf"

fun fdiv :: "float64 \<Rightarrow> float64 \<Rightarrow> float64" where
  "fdiv NaN _ = NaN"
| "fdiv _ NaN = NaN"
| "fdiv (Fin a) (Fin b) =
     (if b \<noteq> 0 then Fin (a / b) else if a = 0 then NaN else if 0 < a then PInf else NInf)"
| "fdiv (Fin a) PInf = Fin 0"
| "fdiv (Fin a) NInf = Fin 0"
| "fdiv PInf (Fin b) = (if 0 \<le> b then PInf else NInf)"
| "fdiv NInf (Fin b) = (if 0 \<le> b then NInf else PInf)"
| "fdiv PInf PInf = NaN"
| "fdiv PInf NInf = NaN"
| "fdiv NInf PInf = NaN"
| "fdiv NInf NInf = NaN"

text \<open>\<^verbatim>\<open>math.Cos\<close>: the cosine of an infinity or of NaN is NaN.\<close>

fun fcos :: "float64 \<Rightarrow> float64" where
  "fcos (Fin a) = Fin (cos a)"
| "fcos PInf = NaN"
| "fcos NInf = NaN"
| "fcos NaN = NaN"

text \<open>The conversion \<^verbatim>\<open>float64(x)\<close> of an \<^verbatim>\<open>int64\<close>.\<close>

definition float64_of_int :: "int \<Rightarrow> float64" where
  "float64_of_int x = Fin (round64 (real_of_int x))"

text \<open>
  The conversion \<^verbatim>\<open>int64(x)\<close> of a finite \<^verbatim>\<open>float64\<close> drops the fraction
  (it rounds toward zero). What Go makes of a value outside the 64-bit range is not
  modelled.
\<close>

definition int64_of_real :: "real \<Rightarrow> int" where
  "int64_of_real x = (if 0 \<le> x then \<lfloor>x\<rfloor> else \<lceil>x\<rceil>)"

text \<open>
  A \<^verbatim>\<open>time.Time\<close> is an instant, counted in nanoseconds since the epoch; a
  \<^verbatim>\<open>time.Duration\<close> is a number of nanoseconds.
\<close>

type_synonym time = int

definition UnixMilli :: "time \<Rightarrow> int" where
  "UnixMilli t = t div 1000000"

definition time_UnixMilli :: "int \<Rightarrow> time" where
  "time_UnixMilli ms = ms * 1000000"

definition Before :: "time \<Rightarrow> time \<Rightarrow> bool" where
  "Before t u = (t < u)"

subsection \<open>Samples\<close>

text \<open>
  The struct \<^verbatim>\<open>Sample\<close>. A \<^verbatim>\<open>*float64\<close> field is \<open>None\<close> when the pointer is
  nil.
\<close>

record Sample =
  Time :: time
  Temperature :: "float64 option"
  PeakVelocityX :: "float64 option"
  RMSVelocityX :: "float64 option"
  PeakAccelerationX :: "float64 option"
  RMSAccelerationX :: "float64 option"
  PeakVelocityY :: "float64 option"
  RMSVelocityY :: "float64 option"
  PeakAccelerationY :: "float64 option"
  RMSAccelerationY :: "float64 option"

text \<open>
  The fields of \<^verbatim>\<open>Sample\<close> that carry a \<^verbatim>\<open>file\<close> tag, in the order of their
  field index. The reflective loops of the program run over them.
\<close>

datatype channel =
  ChTemperature | ChPeakVelocityX | ChRMSVelocityX | ChPeakAccelerationX
| ChRMSAccelerationX | ChPeakVelocityY | ChRMSVelocityY | ChPeakAccelerationY
| ChRMSAccelerationY

definition channels :: "channel list" where
  "channels = [ChTemperature, ChPeakVelocityX, ChRMSVelocityX, ChPeakAccelerationX,
     ChRMSAccelerationX, ChPeakVelocityY, ChRMSVelocityY, ChPeakAccelerationY,
     ChRMSAccelerationY]"

fun file_tag :: "channel \<Rightarrow> string" where
  "file_tag ChTemperature = ''temperature.csv''"
| "file_tag ChPeakVelocityX = ''peak_velocity_x.csv''"
| "file_tag ChRMSVelocityX = ''rms_velocity_x.csv''"
| "file_tag ChPeakAccelerationX = ''peak_acceleration_x.csv''"
| "file_tag ChRMSAccelerationX = ''rms_acceleration_x.csv''"
| "file_tag ChPeakVelocityY = ''peak_velocity_y.csv''"
| "file_tag ChRMSVelocityY = ''rms_velocity_y.csv''"
| "file_tag ChPeakAccelerationY = ''peak_acceleration_y.csv''"
| "file_tag ChRMSAccelerationY = ''rms_acceleration_y.csv''"

text \<open>Reading and writing a field by its index: \<^verbatim>\<open>Field(fieldIndex)\<close> and
  \<^verbatim>\<open>Field(fieldIndex).Set(v)\<close>.\<close>

fun Field :: "channel \<Rightarrow> Sample \<Rightarrow> float64 option" where
  "Field ChTemperature s = Temperature s"
| "Field ChPeakVelocityX s = PeakVelocityX s"
| "Field ChRMSVelocityX s = RMSVelocityX s"
| "Field ChPeakAccelerationX s = PeakAccelerationX s"
| "Field ChRMSAccelerationX s = RMSAccelerationX s"
| "Field ChPeakVelocityY s = PeakVelocityY s"
| "Field ChRMSVelocityY s = RMSVelocityY s"
| "Field ChPeakAccelerationY s = PeakAccelerationY s"
| "Field ChRMSAccelerationY s = RMSAccelerationY s"

fun SetField :: "channel \<Rightarrow> float64 option \<Rightarrow> Sample \<Rightarrow> Sample" where
  "SetField ChTemperature v s = s\<lparr>Temperature := v\<rparr>"
| "SetField ChPeakVelocityX v s = s\<lparr>PeakVelocityX := v\<rparr>"
| "SetField ChRMSVelocityX v s = s\<lparr>RMSVelocityX := v\<rparr>"
| "SetField ChPeakAccelerationX v s = s\<lparr>PeakAccelerationX := v\<rparr>"
| "SetField ChRMSAccelerationX v s = s\<lparr>RMSAccelerationX := v\<rparr>"
| "SetField ChPeakVelocityY v s = s\<lparr>PeakVelocityY := v\<rparr>"
| "SetField ChRMSVelocityY v s = s\<lparr>RMSVelocityY := v\<rparr>"
| "SetField ChPeakAccelerationY v s = s\<lparr>PeakAccelerationY := v\<rparr>"
| "SetField ChRMSAccelerationY v s = s\<lparr>RMSAccelerationY := v\<rparr>"

text \<open>The zero value \<^verbatim>\<open>Sample{}\<close>, with the given \<^verbatim>\<open>Time\<close>.\<close>

definition new_Sample :: "time \<Rightarrow> Sample" where
  "new_Sample t = \<lparr>Time = t, Temperature = None, PeakVelocityX = None, RMSVelocityX = None,
     PeakAccelerationX = None, RMSAccelerationX = None, PeakVelocityY = None,
     RMSVelocityY = None, PeakAccelerationY = None, RMSAccelerationY = None\<rparr>"

text \<open>
  \<^verbatim>\<open>SetValueByDataFile\<close> sets the first field whose tag is the file name, and tells
  whether there is one.
\<close>

definition SetValueByDataFile :: "string \<Rightarrow> float64 option \<Rightarrow> Sample \<Rightarrow> bool \<times> Sample" where
  "SetValueByDataFile targetFileName v sample =
     (case find (\<lambda>ch. file_tag ch = targetFileName) channels of
        Some ch \<Rightarrow> (True, SetField ch v sample)
      | None \<Rightarrow> (False, sample))"

subsection \<open>The store\<close>

text \<open>
  The global \<^verbatim>\<open>hardware\<close>, of type \<^verbatim>\<open>map[string]map[int64]*Sample\<close>. Each
  entry points to a sample of its own, so the pointers are modelled by the samples.
\<close>

type_synonym samples = "(int, Sample) fmap"
type_synonym store = "(string, samples) fmap"

definition HasSamples :: "store \<Rightarrow> string \<Rightarrow> bool" where
  "HasSamples hardware hardwareId = (fmlookup hardware hardwareId \<noteq> None)"

section \<open>InterpolateSample\<close>

text \<open>
  The two errors \<^verbatim>\<open>InterpolateSample\<close> returns: \<^verbatim>\<open>no hardware data for "id"\<close>
  and \<^verbatim>\<open>no interpolable hardware samples within timestamp t\<close>. A panic of the Go
  runtime is an outcome of its own.
\<close>

datatype error = UnknownDevice string | InsufficientDensity time

datatype panic = IndexOutOfRange | NilSample | NilReading | IntegerDivideByZero

datatype 'a outcome = Ok 'a | Error error | Panic panic

text \<open>
  \<^verbatim>\<open>sort.Search(n, f)\<close>: the binary search of the standard library, with
  \<^verbatim>\<open>h := int(uint(i+j) >> 1)\<close>.
\<close>

function Search_loop :: "(int \<Rightarrow> bool) \<Rightarrow> int \<Rightarrow> int \<Rightarrow> int" where
  "Search_loop f i j =
     (if i < j then
        (let h = (i + j) div 2
         in if \<not> f h then Search_loop f (h + 1) j else Search_loop f i h)
      else i)"
  by pat_completeness auto
termination
  by (relation "measure (\<lambda>(f, i, j). nat (j - i))") auto

definition Search :: "int \<Rightarrow> (int \<Rightarrow> bool) \<Rightarrow> int" where
  "Search n f = Search_loop f 0 n"

text \<open>
  The average interval (lines 143 to 150): the loop converts two consecutive timestamps to
  \<^verbatim>\<open>float64\<close>, subtracts them and adds the gap to the sum; the sum is divided by
  \<^verbatim>\<open>float64(sampleCount)\<close> and the quotient converted to \<^verbatim>\<open>int64\<close>. Each step
  rounds.
\<close>

definition sumOfIntervals :: "int list \<Rightarrow> nat \<Rightarrow> real" where
  "sumOfIntervals timestamps sampleCount =
     fold (\<lambda>index s.
             round64 (s + round64 (round64 (real_of_int (timestamps ! (index + 1)))
                                     - round64 (real_of_int (timestamps ! index)))))
       [0 ..< sampleCount - 1] 0"

definition averageInterval :: "int list \<Rightarrow> nat \<Rightarrow> int" where
  "averageInterval timestamps sampleCount =
     int64_of_real (round64 (sumOfIntervals timestamps sampleCount / round64 (real sampleCount)))"

text \<open>
  The scan to the left of \<^verbatim>\<open>atSampleIndex\<close>, for one field: the loop body reads the
  sample at the index, decrements the index, and breaks when the sample has the field or
  the decremented index is \<open>\<le> 0\<close>. An index outside the slice panics.
\<close>

function left_scan :: "int list \<Rightarrow> samples \<Rightarrow> channel \<Rightarrow> int \<Rightarrow> panic + (int \<times> Sample)" where
  "left_scan timestamps samples ch leftSampleIndex =
     (if leftSampleIndex < 0 \<or> int (length timestamps) \<le> leftSampleIndex then Inl IndexOutOfRange
      else
        (let leftTimestamp = timestamps ! nat leftSampleIndex
         in case fmlookup samples leftTimestamp of
              None \<Rightarrow> Inl NilSample
            | Some leftSample \<Rightarrow>
                if Field ch leftSample \<noteq> None \<or> leftSampleIndex - 1 \<le> 0
                then Inr (leftTimestamp, leftSample)
                else left_scan timestamps samples ch (leftSampleIndex - 1)))"
  by pat_completeness auto
termination
  by (relation "measure (\<lambda>(timestamps, samples, ch, i). nat i)") auto

text \<open>
  The scan to the right: the same loop with the index incremented, breaking when the
  incremented index is \<open>\<ge> sampleCount - 1\<close>.
\<close>

function right_scan :: "int list \<Rightarrow> samples \<Rightarrow> channel \<Rightarrow> int \<Rightarrow> int \<Rightarrow> panic + (int \<times> Sample)" where
  "right_scan timestamps samples ch sampleCount rightSampleIndex =
     (if rightSampleIndex < 0 \<or> int (length timestamps) \<le> rightSampleIndex then Inl IndexOutOfRange
      else
        (let rightTimestamp = timestamps ! nat rightSampleIndex
         in case fmlookup samples rightTimestamp of
              None \<Rightarrow> Inl NilSample
            | Some rightSample \<Rightarrow>
                if Field ch rightSample \<noteq> None \<or> sampleCount - 1 \<le> rightSampleIndex + 1
                then Inr (rightTimestamp, rightSample)
                else right_scan timestamps samples ch sampleCount (rightSampleIndex + 1)))"
  by pat_completeness auto
termination
  by (relation "measure (\<lambda>(timestamps, samples, ch, n, i). nat (n - i))") auto

text \<open>
  The blend of the two values found. \<^verbatim>\<open>Elem().Float()\<close> panics on a nil field.
\<close>

definition blend :: "int \<Rightarrow> int \<Rightarrow> int \<Rightarrow> float64 \<Rightarrow> float64 \<Rightarrow> float64" where
  "blend atTimestamp leftTimestamp rightTimestamp leftSampleValue rightSampleValue =
     (let timestampInterval =
            fdiv (float64_of_int atTimestamp)
              (fadd (float64_of_int leftTimestamp) (float64_of_int rightTimestamp));
          interval = fmul (Fin 0.5) (fsub (Fin 1) (fcos (fmul (Fin pi) timestampInterval)))
      in fadd (fmul leftSampleValue (fsub (Fin 1) interval)) (fmul rightSampleValue interval))"

definition interpolate_field ::
  "int list \<Rightarrow> samples \<Rightarrow> nat \<Rightarrow> int \<Rightarrow> int \<Rightarrow> channel \<Rightarrow> panic + float64" where
  "interpolate_field timestamps samples sampleCount atTimestamp atSampleIndex ch =
     (case left_scan timestamps samples ch atSampleIndex of
        Inl p \<Rightarrow> Inl p
      | Inr (leftTimestamp, leftSample) \<Rightarrow>
     (case right_scan timestamps samples ch (int sampleCount) atSampleIndex of
        Inl p \<Rightarrow> Inl p
      | Inr (rightTimestamp, rightSample) \<Rightarrow>
     (case Field ch leftSample of
        None \<Rightarrow> Inl NilReading
      | Some leftSampleValue \<Rightarrow>
     (case Field ch rightSample of
        None \<Rightarrow> Inl NilReading
      | Some rightSampleValue \<Rightarrow>
          Inr (blend atTimestamp leftTimestamp rightTimestamp leftSampleValue rightSampleValue)))))"

text \<open>The loop over the fields, which fills \<^verbatim>\<open>interpolatedSample\<close>.\<close>

fun interpolate_fields ::
  "int list \<Rightarrow> samples \<Rightarrow> nat \<Rightarrow> int \<Rightarrow> int \<Rightarrow> channel list \<Rightarrow> Sample \<Rightarrow> Sample outcome" where
  "interpolate_fields timestamps samples sampleCount atTimestamp atSampleIndex [] interpolatedSample =
     Ok interpolatedSample"
| "interpolate_fields timestamps samples sampleCount atTimestamp atSampleIndex (ch # chs) interpolatedSample =
     (case interpolate_field timestamps samples sampleCount atTimestamp atSampleIndex ch of
        Inl p \<Rightarrow> Panic p
      | Inr atSampleValue \<Rightarrow>
          interpolate_fields timestamps samples sampleCount atTimestamp atSampleIndex chs
            (SetField ch (Some atSampleValue) interpolatedSample))"

text \<open>
  \<^verbatim>\<open>InterpolateSample\<close> (its parameter \<^verbatim>\<open>at\<close> is \<open>atTime\<close> here). The keys of
  a Go map come in no fixed order and are sorted; \<^verbatim>\<open>timestamps[0]\<close> panics when the
  device has no sample.
\<close>

definition InterpolateSample :: "store \<Rightarrow> string \<Rightarrow> time \<Rightarrow> Sample outcome" where
  "InterpolateSample hardware hardwareId atTime =
     (case fmlookup hardware hardwareId of
        None \<Rightarrow> Error (UnknownDevice hardwareId)
      | Some samples \<Rightarrow>
          (let sampleCount = fcard (fmdom samples);
               atTimestamp = UnixMilli atTime;
               timestamps = sorted_list_of_fset (fmdom samples);
               averageInterval = averageInterval timestamps sampleCount
           in if sampleCount = 0 then Panic IndexOutOfRange
              else if atTimestamp < timestamps ! 0 + averageInterval
                      \<or> atTimestamp > timestamps ! (sampleCount - 1) - averageInterval
              then Error (InsufficientDensity atTime)
              else
                (let atSampleIndex =
                       Search (int sampleCount) (\<lambda>index. timestamps ! nat index \<ge> atTimestamp)
                 in interpolate_fields timestamps samples sampleCount atTimestamp atSampleIndex
                      channels (new_Sample atTime))))"

section \<open>Handle: the tabulation loop\<close>

text \<open>
  The decoded body of a \<^verbatim>\<open>POST /api/tabulated_hardware\<close> request (the field
  \<^verbatim>\<open>Id\<close> is \<open>Id_req\<close> here). Routing and the JSON decoding are outside the model.
\<close>

record TabulatedHardwareRequestData =
  Id_req :: string
  From :: time
  To :: time
  Count :: int

text \<open>
  The key \<^verbatim>\<open>timestamp.Format("January _2, 2006 _3:04:05.999PM")\<close> prints the instant
  down to the millisecond: a label is that millisecond.
\<close>

type_synonym label = int

definition Format :: "time \<Rightarrow> label" where
  "Format t = UnixMilli t"

text \<open>
  \<^verbatim>\<open>json.Marshal\<close> fails on a \<^verbatim>\<open>float64\<close> that is NaN or infinite; a nil field is
  \<^verbatim>\<open>null\<close>. The bytes written are modelled by the mapping they encode.
\<close>

fun is_Fin :: "float64 \<Rightarrow> bool" where
  "is_Fin (Fin a) = True"
| "is_Fin _ = False"

definition marshalable :: "Sample \<Rightarrow> bool" where
  "marshalable s = list_all (\<lambda>ch. case Field ch s of None \<Rightarrow> True | Some v \<Rightarrow> is_Fin v) channels"

definition Marshal :: "(label, Sample) fmap \<Rightarrow> (label, Sample) fmap option" where
  "Marshal tabulatedHardware =
     (if fmpred (\<lambda>k s. marshalable s) tabulatedHardware then Some tabulatedHardware else None)"

datatype response = StatusInternalServerError | StatusOK "(label, Sample) fmap"

datatype handled = Responded response | Panicked panic

text \<open>
  The post statement of the loop: the step is the absolute duration between
  \<^verbatim>\<open>From\<close> and \<^verbatim>\<open>To\<close> divided by \<^verbatim>\<open>int64(Count)\<close>, an integer division that
  panics when \<^verbatim>\<open>Count\<close> is 0, and \<^verbatim>\<open>timestamp.Add\<close> returns the later instant.
\<close>

definition post_statement :: "TabulatedHardwareRequestData \<Rightarrow> time \<Rightarrow> panic + time" where
  "post_statement requestData timestamp =
     (if Count requestData = 0 then Inl IntegerDivideByZero
      else Inr (timestamp + \<bar>To requestData - From requestData\<bar> sdiv Count requestData))"

text \<open>
  The loop \<^verbatim>\<open>for timestamp := From; timestamp.Before(To); timestamp.Add(step)\<close>. The
  value of \<^verbatim>\<open>timestamp.Add(step)\<close> is not assigned: \<^verbatim>\<open>Add\<close> has a value receiver
  and the post statement is an expression statement, so the next iteration runs with the
  same \<^verbatim>\<open>timestamp\<close>. The loop either returns from the handler (\<open>Inl\<close>) or falls
  through with the mapping (\<open>Inr\<close>); \<open>None\<close> is a loop that never ends.
\<close>

partial_function (option) tabulate_loop ::
  "store \<Rightarrow> TabulatedHardwareRequestData \<Rightarrow> time \<Rightarrow> (label, Sample) fmap
     \<Rightarrow> (handled + (label, Sample) fmap) option" where
  "tabulate_loop hardware requestData timestamp tabulatedHardware =
     (if Before timestamp (To requestData) then
        (case InterpolateSample hardware (Id_req requestData) timestamp of
           Error e \<Rightarrow> Some (Inl (Responded StatusInternalServerError))
         | Panic p \<Rightarrow> Some (Inl (Panicked p))
         | Ok sample \<Rightarrow>
             (case post_statement requestData timestamp of
                Inl p \<Rightarrow> Some (Inl (Panicked p))
              | Inr discarded \<Rightarrow>
                  tabulate_loop hardware requestData timestamp
                    (fmupd (Format timestamp) sample tabulatedHardware)))
      else Some (Inr tabulatedHardware))"

definition Handle :: "store \<Rightarrow> TabulatedHardwareRequestData \<Rightarrow> handled option" where
  "Handle hardware requestData =
     (if \<not> HasSamples hardware (Id_req requestData)
      then Some (Responded StatusInternalServerError)
      else
        (case tabulate_loop hardware requestData (From requestData) fmempty of
           None \<Rightarrow> None
         | Some (Inl returned) \<Rightarrow> Some returned
         | Some (Inr tabulatedHardware) \<Rightarrow>
             (case Marshal tabulatedHardware of
                None \<Rightarrow> Some (Responded StatusInternalServerError)
              | Some tabulatedHardwareBytes \<Rightarrow> Some (Responded (StatusOK tabulatedHardwareBytes)))))"

section \<open>PopulateSamples\<close>

text \<open>
  The walk of the samples directory, as the list of the files it visits. A file is named
  by its device directory (\<^verbatim>\<open>hardwareId\<close>) and its base name (\<^verbatim>\<open>sampleDataName\<close>); reading it gives records until
  \<^verbatim>\<open>io.EOF\<close> (the end of the list) or a read error. A record is a row of two columns,
  given by what \<^verbatim>\<open>strconv.ParseInt\<close> and \<^verbatim>\<open>strconv.ParseFloat\<close> make of them
  (\<open>None\<close> when the conversion fails).
\<close>

datatype csv_record = Row "int option" "float64 option" | ReadError

record data_file =
  file_hardwareId :: string
  file_sampleDataName :: string
  file_opens :: bool
  file_records :: "csv_record list"

datatype walk_error =
    UnableToOpen string string
  | UnableToRead string string
  | CannotConvertTimestamp string string
  | CannotConvertValue string string
  | SchemaDoesNotSupport string string

text \<open>Lines 99 to 114: one parsed row is written to the store.\<close>

definition store_row :: "string \<Rightarrow> string \<Rightarrow> int \<Rightarrow> float64 \<Rightarrow> store \<Rightarrow> walk_error + store" where
  "store_row hardwareId sampleDataName sampleTimestamp sampleDataValue hardware =
     (let deviceSamples = (case fmlookup hardware hardwareId of None \<Rightarrow> fmempty | Some m \<Rightarrow> m);
          sample = (case fmlookup deviceSamples sampleTimestamp of
                      None \<Rightarrow> new_Sample (time_UnixMilli sampleTimestamp)
                    | Some existing \<Rightarrow> existing);
          (success, sample') = SetValueByDataFile sampleDataName (Some sampleDataValue) sample
      in if \<not> success then Inl (SchemaDoesNotSupport hardwareId sampleDataName)
         else Inr (fmupd hardwareId (fmupd sampleTimestamp sample' deviceSamples) hardware))"

fun read_records :: "string \<Rightarrow> string \<Rightarrow> csv_record list \<Rightarrow> store \<Rightarrow> walk_error + store" where
  "read_records h f [] hardware = Inr hardware"
| "read_records h f (ReadError # rs) hardware = Inl (UnableToRead h f)"
| "read_records h f (Row None v # rs) hardware = Inl (CannotConvertTimestamp h f)"
| "read_records h f (Row (Some sampleTimestamp) None # rs) hardware = Inl (CannotConvertValue h f)"
| "read_records h f (Row (Some sampleTimestamp) (Some sampleDataValue) # rs) hardware =
     (case store_row h f sampleTimestamp sampleDataValue hardware of
        Inl e \<Rightarrow> Inl e
      | Inr hardware' \<Rightarrow> read_records h f rs hardware')"

fun walk :: "data_file list \<Rightarrow> store \<Rightarrow> walk_error + store" where
  "walk [] hardware = Inr hardware"
| "walk (file # files) hardware =
     (if \<not> file_opens file
      then Inl (UnableToOpen (file_hardwareId file) (file_sampleDataName file))
      else
        (case read_records (file_hardwareId file) (file_sampleDataName file) (file_records file)
                hardware of
           Inl e \<Rightarrow> Inl e
         | Inr hardware' \<Rightarrow> walk files hardware'))"

text \<open>\<^verbatim>\<open>PopulateSamples\<close> panics with the error of the walk (\<open>Inl\<close>).\<close>

definition PopulateSamples :: "data_file list \<Rightarrow> walk_error + store" where
  "PopulateSamples files = walk files fmempty"

section \<open>Notions used in the statements\<close>

text \<open>The reading of a channel in the sample stored at an index of \<open>timestamps\<close>.\<close>

definition reading :: "int list \<Rightarrow> samples \<Rightarrow> channel \<Rightarrow> int \<Rightarrow> float64 option" where
  "reading timestamps samples ch j =
     (case fmlookup samples (timestamps ! nat j) of None \<Rightarrow> None | Some s \<Rightarrow> Field ch s)"

text \<open>A call that returns a sample.\<close>

fun is_Ok :: "'a outcome \<Rightarrow> bool" where
  "is_Ok (Ok x) = True"
| "is_Ok (Error e) = False"
| "is_Ok (Panic p) = False"

text \<open>A device whose samples all have a reading for every channel.\<close>

definition dense :: "samples \<Rightarrow> bool" where
  "dense samples = fmpred (\<lambda>t s. list_all (\<lambda>ch. Field ch s \<noteq> None) channels) samples"

text \<open>The comparison \<^verbatim>\<open><=\<close> of two \<^verbatim>\<open>float64\<close>: false when either is NaN.\<close>

fun fle :: "float64 \<Rightarrow> float64 \<Rightarrow> bool" where
  "fle NaN _ = False"
| "fle _ NaN = False"
| "fle (Fin a) (Fin b) = (a \<le> b)"
| "fle NInf _ = True"
| "fle _ PInf = True"
| "fle PInf _ = False"
| "fle _ NInf = False"

text \<open>
  The rows that a walk over well-formed files writes: a file is well formed when it opens,
  every record parses, and its name is the tag of a channel. A row is the device, the
  file name, the timestamp and the value; its triplet is what identifies the field it
  writes. \<open>write_row\<close> is one iteration of the loop over the records, on the outcome
  so far, and \<open>put\<close> is the store after a row whose file is the tag of \<open>ch\<close>.
\<close>

type_synonym row = "string \<times> string \<times> int \<times> float64"

fun rows_of_records :: "string \<Rightarrow> string \<Rightarrow> csv_record list \<Rightarrow> row list" where
  "rows_of_records h f [] = []"
| "rows_of_records h f (Row (Some t) (Some v) # rs) = (h, f, t, v) # rows_of_records h f rs"
| "rows_of_records h f (r # rs) = rows_of_records h f rs"

definition rows_of :: "data_file \<Rightarrow> row list" where
  "rows_of file =
     rows_of_records (file_hardwareId file) (file_sampleDataName file) (file_records file)"

definition rows_of_files :: "data_file list \<Rightarrow> row list" where
  "rows_of_files files = concat (map rows_of files)"

fun parsed :: "csv_record \<Rightarrow> bool" where
  "parsed (Row (Some t) (Some v)) = True"
| "parsed _ = False"

definition well_formed :: "data_file \<Rightarrow> bool" where
  "well_formed file =
     (file_opens file \<and> list_all parsed (file_records file)
      \<and> file_sampleDataName file \<in> set (map file_tag channels))"

fun triplet :: "row \<Rightarrow> string \<times> int \<times> string" where
  "triplet (h, f, t, v) = (h, t, f)"

fun write_row :: "row \<Rightarrow> walk_error + store \<Rightarrow> walk_error + store" where
  "write_row (h, f, t, v) (Inl e) = Inl e"
| "write_row (h, f, t, v) (Inr hardware) = store_row h f t v hardware"

definition put :: "string \<Rightarrow> int \<Rightarrow> channel \<Rightarrow> float64 \<Rightarrow> store \<Rightarrow> store" where
  "put h t ch v hardware =
     (let deviceSamples = (case fmlookup hardware h of None \<Rightarrow> fmempty | Some m \<Rightarrow> m);
          sample = (case fmlookup deviceSamples t of
                      None \<Rightarrow> new_Sample (time_UnixMilli t)
                    | Some existing \<Rightarrow> existing)
      in fmupd h (fmupd t (SetField ch (Some v) sample) deviceSamples) hardware)"

section \<open>Example data\<close>

definition dense_Sample :: "int \<Rightarrow> real \<Rightarrow> Sample" where
  "dense_Sample ms v = \<lparr>Time = time_UnixMilli ms, Temperature = Some (Fin v),
     PeakVelocityX = Some (Fin v), RMSVelocityX = Some (Fin v), PeakAccelerationX = Some (Fin v),
     RMSAccelerationX = Some (Fin v), PeakVelocityY = Some (Fin v), RMSVelocityY = Some (Fin v),
     PeakAccelerationY = Some (Fin v), RMSAccelerationY = Some (Fin v)\<rparr>"

text \<open>The device of the specification's examples: samples at 0, 1000, ..., 4000 ms.\<close>

definition fan1_samples :: samples where
  "fan1_samples = fmap_of_list [(0, dense_Sample 0 20), (1000, dense_Sample 1000 21),
     (2000, dense_Sample 2000 22), (3000, dense_Sample 3000 23), (4000, dense_Sample 4000 24)]"

definition fan1_store :: store where
  "fan1_store = fmap_of_list [(''fan1'', fan1_samples)]"

definition tabulate_request :: "int \<Rightarrow> int \<Rightarrow> int \<Rightarrow> TabulatedHardwareRequestData" where
  "tabulate_request from_ms to_ms n =
     \<lparr>Id_req = ''fan1'', From = time_UnixMilli from_ms, To = time_UnixMilli to_ms, Count = n\<rparr>"

text \<open>A device with a single sample, at 1000 ms.\<close>

definition solo_samples :: samples where
  "solo_samples = fmap_of_list [(1000, dense_Sample 1000 20)]"

definition solo_store :: store where
  "solo_store = fmap_of_list [(''solo'', solo_samples)]"



text \<open>
  The files of the device \<open>pump\<close>: its temperature was not recorded at 1000 ms, every
  other channel has a row at each of 0, 1000, 2000 and 3000 ms. \<open>pump_store\<close> is the
  store that \<^verbatim>\<open>PopulateSamples\<close> builds from them.
\<close>

definition channel_file :: "string \<Rightarrow> (int \<times> real) list \<Rightarrow> data_file" where
  "channel_file name rows =
     \<lparr>file_hardwareId = ''pump'', file_sampleDataName = name, file_opens = True,
      file_records = map (\<lambda>(t, v). Row (Some t) (Some (Fin v))) rows\<rparr>"

definition pump_files :: "data_file list" where
  "pump_files =
     channel_file ''temperature.csv'' [(0, 20), (2000, 22), (3000, 23)]
     # map (\<lambda>ch. channel_file (file_tag ch) [(0, 1), (1000, 2), (2000, 3), (3000, 4)])
         (tl channels)"

definition pump_samples :: samples where
  "pump_samples = fmap_of_list
     [(0, (dense_Sample 0 1)\<lparr>Temperature := Some (Fin 20)\<rparr>),
      (1000, (dense_Sample 1000 2)\<lparr>Temperature := None\<rparr>),
      (2000, (dense_Sample 2000 3)\<lparr>Temperature := Some (Fin 22)\<rparr>),
      (3000, (dense_Sample 3000 4)\<lparr>Temperature := Some (Fin 23)\<rparr>)]"

definition pump_store :: store where
  "pump_store = fmap_of_list [(''pump'', pump_samples)]"

text \<open>
  A device sampled at 0, 1000 and 2000 ms, and one whose timestamps are beyond \<open>2^53\<close>;
  every channel present.
\<close>

definition trio_samples :: samples where
  "trio_samples = fmap_of_list
     [(0, dense_Sample 0 20), (1000, dense_Sample 1000 21), (2000, dense_Sample 2000 22)]"

definition trio_store :: store where
  "trio_store = fmap_of_list [(''trio'', trio_samples)]"

definition far_samples :: samples where
  "far_samples = fmap_of_list
     [(0, dense_Sample 0 20), (9007199254740993, dense_Sample 9007199254740993 21),
      (9007199254740995, dense_Sample 9007199254740995 22)]"

definition far_store :: store where
  "far_store = fmap_of_list [(''far'', far_samples)]"

text \<open>A device sampled at 0, 1 and 2 ms after the epoch, every channel present.\<close>

definition epoch_samples :: samples where
  "epoch_samples = fmap_of_list
     [(0, dense_Sample 0 20), (1, dense_Sample 1 21), (2, dense_Sample 2 22)]"

definition epoch_store :: store where
  "epoch_store = fmap_of_list [(''fan0'', epoch_samples)]"

definition all_NaN :: "time \<Rightarrow> Sample" where
  "all_NaN t = \<lparr>Time = t, Temperature = Some NaN,
     PeakVelocityX = Some NaN, RMSVelocityX = Some NaN, PeakAccelerationX = Some NaN,
     RMSAccelerationX = Some NaN, PeakVelocityY = Some NaN, RMSVelocityY = Some NaN,
     PeakAccelerationY = Some NaN, RMSAccelerationY = Some NaN\<rparr>"

text \<open>
  Two files of the device \<open>fan1\<close>, each with one row at 1000 ms, and the store that
  holds both readings in one sample.
\<close>

definition temperature_file :: data_file where
  "temperature_file = \<lparr>file_hardwareId = ''fan1'', file_sampleDataName = ''temperature.csv'',
     file_opens = True, file_records = [Row (Some 1000) (Some (Fin 20))]\<rparr>"

definition velocity_file :: data_file where
  "velocity_file = \<lparr>file_hardwareId = ''fan1'', file_sampleDataName = ''peak_velocity_x.csv'',
     file_opens = True, file_records = [Row (Some 1000) (Some (Fin 3))]\<rparr>"

definition merged_store :: store where
  "merged_store = fmap_of_list [(''fan1'', fmap_of_list
     [(1000, (new_Sample (time_UnixMilli 1000))\<lparr>Temperature := Some (Fin 20),
         PeakVelocityX := Some (Fin 3)\<rparr>)])]"

section \<open>Properties of the model\<close>

lemma Search_loop_inv:
  "i \<le> j \<Longrightarrow>
     i \<le> Search_loop f i j \<and> Search_loop f i j \<le> j
     \<and> (Search_loop f i j = j \<or> f (Search_loop f i j))
     \<and> (Search_loop f i j = i \<or> \<not> f (Search_loop f i j - 1))"
proof (induction f i j rule: Search_loop.induct)
  case (1 f i j)
  show ?case
  proof (cases "i < j")
    case False
    with "1.prems" show ?thesis by (subst (1 2 3 4 5 6) Search_loop.simps) simp
  next
    case True
    define h where "h = (i + j) div 2"
    have hb: "i \<le> h" "h < j" using True by (auto simp: h_def)
    show ?thesis
    proof (cases "f h")
      case False
      have eq: "Search_loop f i j = Search_loop f (h + 1) j"
        using True False by (subst Search_loop.simps) (simp add: h_def Let_def)
      have "h + 1 \<le> j" using hb by simp
      from "1.IH"(1)[OF True h_def False this]
      show ?thesis unfolding eq using hb False by auto
    next
      case fh: True
      have eq: "Search_loop f i j = Search_loop f i h"
        using True fh by (subst Search_loop.simps) (simp add: h_def Let_def)
      have "\<not> \<not> f h" using fh by simp
      from "1.IH"(2)[OF True h_def this hb(1)]
      show ?thesis unfolding eq using hb fh by auto
    qed
  qed
qed

lemma Search_anchor:
  assumes "0 < n" "f (n - 1)"
  shows "0 \<le> Search n f" "Search n f < n" "f (Search n f)"
    "Search n f = 0 \<or> \<not> f (Search n f - 1)"
proof -
  have le: "(0::int) \<le> n" using assms(1) by simp
  note inv = Search_loop_inv[OF le, of f, folded Search_def]
  show "0 \<le> Search n f" using inv by simp
  show "Search n f = 0 \<or> \<not> f (Search n f - 1)" using inv by simp
  have "Search n f \<noteq> n" using inv assms by auto
  then show "Search n f < n" using inv by simp
  then show "f (Search n f)" using inv by auto
qed

lemma left_scan_spec:
  assumes "0 \<le> a" "a < int (length ts)"
    and "\<forall>k < length ts. fmlookup samples (ts ! k) \<noteq> None"
  shows "\<exists>k s. left_scan ts samples ch a = Inr (ts ! nat k, s)
           \<and> fmlookup samples (ts ! nat k) = Some s
           \<and> 0 \<le> k \<and> k \<le> a \<and> (k = a \<or> 1 \<le> k)
           \<and> (\<forall>j. k < j \<and> j \<le> a \<longrightarrow> reading ts samples ch j = None)
           \<and> (Field ch s \<noteq> None \<or> k \<le> 1)"
  using assms
proof (induction ts samples ch a rule: left_scan.induct)
  case (1 ts samples ch a)
  from "1.prems" obtain s where s: "fmlookup samples (ts ! nat a) = Some s"
    by (metis not_None_eq nat_less_iff)
  show ?case
  proof (cases "Field ch s \<noteq> None \<or> a - 1 \<le> 0")
    case True
    then have "left_scan ts samples ch a = Inr (ts ! nat a, s)"
      using "1.prems" s by (subst left_scan.simps) (simp add: Let_def)
    then show ?thesis using s True "1.prems" by (intro exI[of _ a] exI[of _ s]) auto
  next
    case False
    then have eq: "left_scan ts samples ch a = left_scan ts samples ch (a - 1)"
      using "1.prems" s by (subst left_scan.simps) (simp add: Let_def)
    have "\<not> (a < 0 \<or> int (length ts) \<le> a)" using "1.prems" by simp
    from "1.IH"[OF this refl s False] "1.prems" False
    obtain k s' where k: "left_scan ts samples ch (a - 1) = Inr (ts ! nat k, s')"
      "fmlookup samples (ts ! nat k) = Some s'" "0 \<le> k" "k \<le> a - 1" "k = a - 1 \<or> 1 \<le> k"
      "\<forall>j. k < j \<and> j \<le> a - 1 \<longrightarrow> reading ts samples ch j = None"
      "Field ch s' \<noteq> None \<or> k \<le> 1"
      by auto
    have ra: "reading ts samples ch a = None" using s False by (simp add: reading_def)
    have "\<forall>j. k < j \<and> j \<le> a \<longrightarrow> reading ts samples ch j = None"
    proof (intro allI impI)
      fix j assume "k < j \<and> j \<le> a"
      then have "j = a \<or> (k < j \<and> j \<le> a - 1)" by auto
      then show "reading ts samples ch j = None" using ra k(6) by auto
    qed
    then show ?thesis unfolding eq using k False
      by (intro exI[of _ k] exI[of _ s']) auto
  qed
qed

lemma right_scan_spec:
  assumes "0 \<le> a" "a < int (length ts)"
    and "\<forall>k < length ts. fmlookup samples (ts ! k) \<noteq> None"
    and "n = int (length ts)"
  shows "\<exists>k s. right_scan ts samples ch n a = Inr (ts ! nat k, s)
           \<and> fmlookup samples (ts ! nat k) = Some s
           \<and> a \<le> k \<and> k < int (length ts) \<and> (k = a \<or> k \<le> n - 2)
           \<and> (\<forall>j. a \<le> j \<and> j < k \<longrightarrow> reading ts samples ch j = None)
           \<and> (Field ch s \<noteq> None \<or> n - 2 \<le> k)"
  using assms
proof (induction ts samples ch n a rule: right_scan.induct)
  case (1 ts samples ch n a)
  from "1.prems" obtain s where s: "fmlookup samples (ts ! nat a) = Some s"
    by (metis not_None_eq nat_less_iff)
  show ?case
  proof (cases "Field ch s \<noteq> None \<or> n - 1 \<le> a + 1")
    case True
    then have "right_scan ts samples ch n a = Inr (ts ! nat a, s)"
      using "1.prems" s by (subst right_scan.simps) (simp add: Let_def)
    then show ?thesis using s True "1.prems" by (intro exI[of _ a] exI[of _ s]) auto
  next
    case False
    then have eq: "right_scan ts samples ch n a = right_scan ts samples ch n (a + 1)"
      using "1.prems" s by (subst right_scan.simps) (simp add: Let_def)
    have nr: "\<not> (a < 0 \<or> int (length ts) \<le> a)" using "1.prems" by simp
    show ?thesis
    proof (cases "a + 1 < int (length ts)")
      case inr: True
      have "0 \<le> a + 1" using "1.prems" by simp
      from "1.IH"[OF nr refl s False this inr "1.prems"(3,4)]
      obtain k s' where k: "right_scan ts samples ch n (a + 1) = Inr (ts ! nat k, s')"
        "fmlookup samples (ts ! nat k) = Some s'" "a + 1 \<le> k" "k < int (length ts)"
        "k = a + 1 \<or> k \<le> n - 2"
        "\<forall>j. a + 1 \<le> j \<and> j < k \<longrightarrow> reading ts samples ch j = None"
        "Field ch s' \<noteq> None \<or> n - 2 \<le> k"
        by auto
      have ra: "reading ts samples ch a = None" using s False by (simp add: reading_def)
      have "\<forall>j. a \<le> j \<and> j < k \<longrightarrow> reading ts samples ch j = None"
      proof (intro allI impI)
        fix j assume "a \<le> j \<and> j < k"
        then have "j = a \<or> (a + 1 \<le> j \<and> j < k)" by auto
        then show "reading ts samples ch j = None" using ra k(6) by auto
      qed
      then show ?thesis unfolding eq using k False
        by (intro exI[of _ k] exI[of _ s']) auto
    next
      case False
      with \<open>\<not> (Field ch s \<noteq> None \<or> n - 1 \<le> a + 1)\<close> "1.prems" show ?thesis by simp
    qed
  qed
qed


lemma channels_all: "ch \<in> set channels"
  by (cases ch) (simp_all add: channels_def)

lemma sorted_list_of_fset_sorted: "sorted (sorted_list_of_fset S)"
  by (simp add: sorted_list_of_fset.rep_eq)

lemma sorted_list_of_fset_distinct: "distinct (sorted_list_of_fset S)"
  by (simp add: sorted_list_of_fset.rep_eq)

lemma sorted_list_of_fset_length: "length (sorted_list_of_fset S) = fcard S"
  by (simp add: sorted_list_of_fset.rep_eq fcard.rep_eq)

lemma timestamps_keys:
  "k < length (sorted_list_of_fset (fmdom samples))
     \<Longrightarrow> fmlookup samples (sorted_list_of_fset (fmdom samples) ! k) \<noteq> None"
proof -
  assume "k < length (sorted_list_of_fset (fmdom samples))"
  then have "sorted_list_of_fset (fmdom samples) ! k \<in> set (sorted_list_of_fset (fmdom samples))"
    by (rule nth_mem)
  then have "sorted_list_of_fset (fmdom samples) ! k |\<in>| fmdom samples" by simp
  then show ?thesis by (simp add: fmlookup_dom_iff)
qed

text \<open>
  Rounding: an integer below \<open>2^53\<close> in magnitude is a \<^verbatim>\<open>float64\<close>, and the
  \<^verbatim>\<open>float64\<close> quotient of two such integers, converted to \<^verbatim>\<open>int64\<close>, is their
  integer quotient.
\<close>

lemma round_even_of_int: "round_even (of_int k) = k"
  by (simp add: round_even_def)

lemma round_even_ge:
  assumes "of_int a \<le> y"
  shows "a \<le> round_even y"
proof -
  have "a \<le> \<lfloor>y\<rfloor>" using assms by (simp add: le_floor_iff)
  then show ?thesis by (auto simp: round_even_def Let_def)
qed

lemma round_even_less:
  assumes "y < of_int a - 1 / 2"
  shows "round_even y < a"
proof -
  have "y < of_int a" using assms by simp
  then have f: "\<lfloor>y\<rfloor> < a" by (simp add: floor_less_iff)
  show ?thesis
  proof (cases "y - of_int \<lfloor>y\<rfloor> < 1 / 2")
    case True
    then show ?thesis using f by (simp add: round_even_def Let_def)
  next
    case False
    then have "of_int \<lfloor>y\<rfloor> + 1 / 2 \<le> y" by simp
    then have "of_int \<lfloor>y\<rfloor> + 1 < (of_int a :: real)" using assms by simp
    then have "\<lfloor>y\<rfloor> + 1 < a" by (metis of_int_1 of_int_add of_int_less_iff)
    then show ?thesis by (auto simp: round_even_def Let_def)
  qed
qed

lemma exponent_down_le: "exponent_down k y \<le> 0"
  by (induction k y rule: exponent_down.induct) auto

lemma exponent_small:
  assumes "\<bar>x\<bar> < 1"
  shows "exponent x \<le> - 1"
proof -
  have s: "(1022::nat) = Suc 1021" by simp
  have n: "\<not> 1 \<le> \<bar>x\<bar>" using assms by simp
  have "exponent x = exponent_down (Suc 1021) \<bar>x\<bar>"
    unfolding exponent_def s using n by (simp only: if_False)
  also have "\<dots> = exponent_down 1021 (2 * \<bar>x\<bar>) - 1"
    using n by (simp only: exponent_down.simps if_False)
  finally have "exponent x = exponent_down 1021 (2 * \<bar>x\<bar>) - 1" .
  then show ?thesis using exponent_down_le[of 1021 "2 * \<bar>x\<bar>"] by linarith
qed

lemma exponent_large:
  assumes "1 \<le> \<bar>x\<bar>"
  shows "0 \<le> exponent x" and "2 ^ nat (exponent x) \<le> \<bar>x\<bar>"
proof -
  have p: "0 < \<lfloor>\<bar>x\<bar>\<rfloor>" using assms by (simp add: zero_less_floor)
  have e: "exponent x = bitlen \<lfloor>\<bar>x\<bar>\<rfloor> - 1" using assms by (simp add: exponent_def)
  have "1 \<le> bitlen \<lfloor>\<bar>x\<bar>\<rfloor>" using p by (auto simp: bitlen_alt_def)
  then show "0 \<le> exponent x" using e by simp
  have "(2::int) ^ nat (bitlen \<lfloor>\<bar>x\<bar>\<rfloor> - 1) \<le> \<lfloor>\<bar>x\<bar>\<rfloor>" using bitlen_bounds[OF p] by simp
  then have "of_int ((2::int) ^ nat (exponent x)) \<le> (of_int \<lfloor>\<bar>x\<bar>\<rfloor> :: real)"
    unfolding e by (simp only: of_int_le_iff)
  also have "\<dots> \<le> \<bar>x\<bar>" by simp
  finally show "2 ^ nat (exponent x) \<le> \<bar>x\<bar>" by simp
qed

lemma ulp_cases:
  assumes "\<bar>x\<bar> < 2 ^ 53"
  obtains j where "pow2 (exponent x - 52) = 1 / 2 ^ j" "52 - int j = exponent x"
proof -
  have "exponent x \<le> 52"
  proof (cases "\<bar>x\<bar> < 1")
    case True
    then show ?thesis using exponent_small[of x] by simp
  next
    case False
    then have l: "1 \<le> \<bar>x\<bar>" by simp
    have "(2::real) ^ nat (exponent x) < 2 ^ 53"
      using exponent_large(2)[OF l] assms by linarith
    then have "nat (exponent x) < 53" by (simp only: power_strict_increasing_iff[of 2] one_less_numeral_iff semiring_norm)
    then show ?thesis by simp
  qed
  then have le: "exponent x - 52 \<le> 0" by simp
  define j where "j = nat (52 - exponent x)"
  have "pow2 (exponent x - 52) = 1 / 2 ^ j"
  proof (cases "exponent x - 52 = 0")
    case True
    then show ?thesis by (simp add: pow2_def j_def)
  next
    case False
    then have "exponent x - 52 < 0" using le by simp
    then show ?thesis by (simp add: pow2_def j_def)
  qed
  moreover have "52 - int j = exponent x" using le by (simp add: j_def)
  ultimately show ?thesis by (rule that)
qed

lemma round64_of_int:
  assumes "\<bar>k\<bar> < 2 ^ 53"
  shows "round64 (of_int k) = of_int k"
proof -
  have "\<bar>real_of_int k\<bar> < 2 ^ 53" using assms by (metis of_int_abs of_int_less_numeral_power_cancel_iff)
  then obtain j where j: "pow2 (exponent (of_int k) - 52) = 1 / 2 ^ j"
    by (rule ulp_cases)
  have "real_of_int k / (1 / 2 ^ j) = of_int (k * 2 ^ j)" by simp
  then have "round_even (real_of_int k / (1 / 2 ^ j)) = k * 2 ^ j"
    by (simp only: round_even_of_int)
  then show ?thesis by (simp add: round64_def j)
qed



lemma round64_quotient:
  assumes "0 \<le> d" "d < 2 ^ 53" "0 < n" "n < 2 ^ 53"
  shows "int64_of_real (round64 (of_int d / of_int n)) = d div n"
proof -
  define q where "q = real_of_int d / real_of_int n"
  define m where "m = d div n"
  have n0: "0 < real_of_int n" using assms(3) by simp
  have q0: "0 \<le> q" using assms(1,3) by (simp add: q_def)
  have "q \<le> real_of_int d"
  proof -
    have "1 \<le> real_of_int n" using assms(3) by simp
    then have "real_of_int d \<le> real_of_int d * real_of_int n"
      using assms(1) by (simp add: mult_le_cancel_left1)
    then show ?thesis using n0 by (simp add: q_def divide_le_eq)
  qed
  also have "\<dots> < 2 ^ 53" using assms(2) by (metis of_int_less_numeral_power_cancel_iff)
  finally have qb: "\<bar>q\<bar> < 2 ^ 53" using q0 by simp
  then obtain j where j: "pow2 (exponent q - 52) = 1 / 2 ^ j" "52 - int j = exponent q"
    by (rule ulp_cases)
  have nj: "real_of_int n < 2 ^ (j + 1)"
  proof (cases "\<bar>q\<bar> < 1")
    case True
    then have "53 \<le> j" using exponent_small[of q] j(2) by simp
    then have "(2::real) ^ 53 \<le> 2 ^ j" by (simp only: power_increasing_iff[of 2] one_less_numeral_iff semiring_norm)
    moreover have "real_of_int n < 2 ^ 53" using assms(4) by (metis of_int_less_numeral_power_cancel_iff)
    ultimately show ?thesis by simp
  next
    case False
    then have l: "1 \<le> \<bar>q\<bar>" by simp
    define E where "E = nat (exponent q)"
    have e0: "0 \<le> exponent q" by (rule exponent_large(1)[OF l])
    have jE: "j + E = 52" using j(2) e0 by (simp add: E_def)
    have "2 ^ E \<le> q" using exponent_large(2)[OF l] q0 by (simp add: E_def)
    then have "2 ^ E * real_of_int n \<le> real_of_int d"
      using n0 by (simp add: q_def le_divide_eq)
    also have "\<dots> < 2 ^ 53" using assms(2) by (metis of_int_less_numeral_power_cancel_iff)
    also have "(2::real) ^ 53 = 2 ^ E * 2 ^ (j + 1)"
    proof -
      have "(53::nat) = E + (j + 1)" using jE by simp
      then show ?thesis by (simp only: power_add)
    qed
    finally show ?thesis by simp
  qed
  have mq: "real_of_int m \<le> q"
    unfolding m_def q_def by (metis floor_divide_of_int_eq of_int_floor_le)
  have qm: "q \<le> real_of_int m + 1 - 1 / real_of_int n"
  proof -
    have "d mod n \<le> n - 1" using assms(3) by (simp add: pos_mod_bound zle_diff1_eq)
    moreover have "d = m * n + d mod n" by (simp add: m_def)
    ultimately have "d \<le> m * n + n - 1" by linarith
    then have "real_of_int d \<le> real_of_int (m * n + n - 1)" by (simp only: of_int_le_iff)
    then have "real_of_int d \<le> (real_of_int m + 1 - 1 / real_of_int n) * real_of_int n"
      using n0 by (simp add: algebra_simps)
    then show ?thesis using n0 by (simp add: q_def divide_le_eq)
  qed
  define y where "y = q * 2 ^ j"
  define R where "R = round_even y"
  have lo: "m * 2 ^ j \<le> R"
  proof -
    have "real_of_int (m * 2 ^ j) \<le> y" using mq by (simp add: y_def)
    then show ?thesis unfolding R_def by (rule round_even_ge)
  qed
  have hi: "R < (m + 1) * 2 ^ j"
  proof -
    have half: "1 / 2 < 2 ^ j / real_of_int n"
    proof -
      have "real_of_int n < 2 * 2 ^ j" using nj by simp
      then show ?thesis using n0 by (simp add: less_divide_eq)
    qed
    have "y \<le> (real_of_int m + 1 - 1 / real_of_int n) * 2 ^ j"
      unfolding y_def using qm by (simp add: mult_right_mono)
    also have "\<dots> = real_of_int ((m + 1) * 2 ^ j) - 2 ^ j / real_of_int n"
      by (simp add: algebra_simps)
    also have "\<dots> < real_of_int ((m + 1) * 2 ^ j) - 1 / 2" using half by simp
    finally show ?thesis unfolding R_def by (rule round_even_less)
  qed
  have r: "round64 q = real_of_int R / 2 ^ j"
    by (simp add: round64_def j(1) R_def y_def)
  have m0: "0 \<le> m" using assms(1,3) by (simp add: m_def pos_imp_zdiv_nonneg_iff)
  have p: "(0::real) < 2 ^ j" by simp
  have a: "real_of_int m \<le> real_of_int R / 2 ^ j"
  proof -
    have "real_of_int (m * 2 ^ j) \<le> real_of_int R" using lo by (simp only: of_int_le_iff)
    then show ?thesis using p by (simp add: le_divide_eq)
  qed
  have b: "real_of_int R / 2 ^ j < real_of_int m + 1"
  proof -
    have "real_of_int R < real_of_int ((m + 1) * 2 ^ j)" using hi by (simp only: of_int_less_iff)
    then show ?thesis using p by (simp add: divide_less_eq)
  qed
  have "\<lfloor>real_of_int R / 2 ^ j\<rfloor> = m" using a b by (simp add: floor_eq_iff)
  moreover have "0 \<le> real_of_int R / 2 ^ j" using a m0 by linarith
  ultimately show ?thesis
    unfolding q_def[symmetric] r m_def[symmetric] by (simp add: int64_of_real_def)
qed

lemma round64_of_nat:
  assumes "n < 2 ^ 53"
  shows "round64 (real n) = real n"
proof -
  have "int n < 2 ^ 53" using assms by (simp only: of_nat_less_numeral_power_cancel_iff)
  then have "\<bar>int n\<bar> < 2 ^ 53" by (simp only: abs_of_nat)
  from round64_of_int[OF this] show ?thesis by (simp only: of_int_of_nat_eq)
qed

lemma round64_zero: "round64 0 = 0"
  using round64_of_int[of 0] by simp

lemma fold_gaps:
  assumes "\<forall>i \<le> k. \<bar>ts ! i\<bar> < 2 ^ 52"
  shows "fold (\<lambda>index s.
             round64 (s + round64 (round64 (real_of_int (ts ! (index + 1)))
                                     - round64 (real_of_int (ts ! index)))))
           [0 ..< k] 0
         = real_of_int (ts ! k - ts ! 0)"
  using assms
proof (induction k)
  case 0
  show ?case by simp
next
  case (Suc k)
  let ?f = "\<lambda>index s.
             round64 (s + round64 (round64 (real_of_int (ts ! (index + 1)))
                                     - round64 (real_of_int (ts ! index))))"
  have b: "\<bar>ts ! 0\<bar> < 2 ^ 52" "\<bar>ts ! k\<bar> < 2 ^ 52" "\<bar>ts ! (k + 1)\<bar> < 2 ^ 52"
    using Suc.prems by simp_all
  have r: "round64 (real_of_int (ts ! k)) = real_of_int (ts ! k)"
    "round64 (real_of_int (ts ! (k + 1))) = real_of_int (ts ! (k + 1))"
    using b by (simp_all add: round64_of_int)
  have "\<bar>ts ! (k + 1) - ts ! k\<bar> < 2 ^ 53" using b by simp
  from round64_of_int[OF this]
  have g: "round64 (real_of_int (ts ! (k + 1)) - real_of_int (ts ! k))
      = real_of_int (ts ! (k + 1) - ts ! k)"
    by simp
  have "\<bar>ts ! (k + 1) - ts ! 0\<bar> < 2 ^ 53" using b by simp
  from round64_of_int[OF this]
  have s: "round64 (real_of_int (ts ! (k + 1) - ts ! 0)) = real_of_int (ts ! (k + 1) - ts ! 0)" .
  have e: "real_of_int (ts ! k - ts ! 0) + real_of_int (ts ! (k + 1) - ts ! k)
      = real_of_int (ts ! (k + 1) - ts ! 0)"
    by simp
  have ih: "fold ?f [0 ..< k] 0 = real_of_int (ts ! k - ts ! 0)"
    using Suc.IH Suc.prems by simp
  have "fold ?f [0 ..< Suc k] 0 = ?f k (fold ?f [0 ..< k] 0)" by simp
  also have "\<dots> = round64 (real_of_int (ts ! k - ts ! 0)
      + round64 (real_of_int (ts ! (k + 1)) - real_of_int (ts ! k)))"
    by (simp only: ih r)
  also have "\<dots> = round64 (real_of_int (ts ! (k + 1) - ts ! 0))"
    by (simp only: g e)
  also have "\<dots> = real_of_int (ts ! (k + 1) - ts ! 0)" by (rule s)
  finally show ?case by (simp only: Suc_eq_plus1)
qed

lemma sumOfIntervals_telescope:
  assumes "list_all (\<lambda>t. \<bar>t\<bar> < 2 ^ 52) ts" and "n = length ts"
  shows "sumOfIntervals ts n = real_of_int (ts ! (n - 1) - ts ! 0)"
proof (cases "n = 0")
  case True
  then show ?thesis by (simp add: sumOfIntervals_def)
next
  case False
  then have "0 < n" by simp
  then have "\<forall>i \<le> n - 1. i < n" by auto
  then have "\<forall>i \<le> n - 1. i < length ts" using assms(2) by simp
  then have "\<forall>i \<le> n - 1. \<bar>ts ! i\<bar> < 2 ^ 52" using assms(1) by (simp add: list_all_length)
  then show ?thesis unfolding sumOfIntervals_def by (rule fold_gaps)
qed

lemma bounded_distinct_length:
  fixes ts :: "int list"
  assumes "list_all (\<lambda>t. \<bar>t\<bar> < 2 ^ 52) ts" and "distinct ts"
  shows "length ts < 2 ^ 53"
proof -
  have "set ts \<subseteq> {- (2 ^ 52) <..< 2 ^ 52 :: int}"
    using assms(1) by (auto simp: list_all_iff abs_less_iff)
  then have "card (set ts) \<le> card {- (2 ^ 52) <..< 2 ^ 52 :: int}"
    by (intro card_mono) simp_all
  then have "length ts \<le> card {- (2 ^ 52) <..< 2 ^ 52 :: int}"
    using assms(2) by (simp add: distinct_card)
  then show ?thesis by simp
qed

lemma averageInterval_sorted:
  assumes "sorted ts" and "distinct ts" and "n = length ts" and "0 < n"
    and "list_all (\<lambda>t. \<bar>t\<bar> < 2 ^ 52) ts"
  shows "averageInterval ts n = (ts ! (n - 1) - ts ! 0) div int n"
    and "0 \<le> averageInterval ts n"
proof -
  have i: "0 < length ts" "n - 1 < length ts" using assms(3,4) by simp_all
  have "ts ! 0 \<le> ts ! (n - 1)" using assms(1) i(2) by (intro sorted_nth_mono) simp_all
  then have d: "0 \<le> ts ! (n - 1) - ts ! 0" by linarith
  have b: "\<bar>ts ! 0\<bar> < 2 ^ 52" "\<bar>ts ! (n - 1)\<bar> < 2 ^ 52"
    using assms(5) i unfolding list_all_length by blast+
  have p: "(2::int) ^ 53 = 2 ^ 52 + 2 ^ 52" by simp
  have d53: "ts ! (n - 1) - ts ! 0 < 2 ^ 53" unfolding p using b by linarith
  have n53: "n < 2 ^ 53" using bounded_distinct_length[OF assms(5,2)] unfolding assms(3) .
  then have n53': "int n < 2 ^ 53" by (simp only: of_nat_less_numeral_power_cancel_iff)
  have n0: "0 < int n" using assms(4) by linarith
  have "averageInterval ts n
      = int64_of_real (round64 (real_of_int (ts ! (n - 1) - ts ! 0) / real_of_int (int n)))"
    unfolding averageInterval_def sumOfIntervals_telescope[OF assms(5,3)]
    by (simp only: round64_of_nat[OF n53] of_int_of_nat_eq)
  also have "\<dots> = (ts ! (n - 1) - ts ! 0) div int n"
    by (rule round64_quotient[OF d d53 n0 n53'])
  finally show "averageInterval ts n = (ts ! (n - 1) - ts ! 0) div int n" .
  then show "0 \<le> averageInterval ts n"
    using d n0 by (simp only: pos_imp_zdiv_nonneg_iff)
qed

lemma averageInterval_single: "averageInterval [t0] 1 = 0"
  by (simp add: averageInterval_def sumOfIntervals_def round64_zero int64_of_real_def)

lemma averageInterval_eval:
  assumes "sorted ts" and "distinct ts" and "n = length ts" and "0 < n"
    and "list_all (\<lambda>t. \<bar>t\<bar> < 2 ^ 52) ts"
  shows "averageInterval ts n = (last ts - hd ts) div int n"
proof -
  have ne: "ts \<noteq> []" using assms(3,4) by auto
  have "ts ! (n - 1) = last ts" using ne assms(3) by (simp add: last_conv_nth)
  moreover have "ts ! 0 = hd ts" using ne by (simp add: hd_conv_nth)
  ultimately show ?thesis
    using averageInterval_sorted(1)[OF assms] by simp
qed

text \<open>
  Beyond \<open>2^53\<close> the conversions round: for the timestamps 0, \<open>2^53 + 1\<close> and \<open>2^53 + 3\<close>
  the sum of the gaps is \<open>2^53 + 4\<close>.
\<close>

lemma averageInterval_far:
  "averageInterval [0, 9007199254740993, 9007199254740995] 3 = 3002399751580332"
proof -
  have r: "round64 9007199254740993 = 9007199254740992"
    "round64 9007199254740995 = 9007199254740996"
    "round64 9007199254740992 = 9007199254740992"
    "round64 9007199254740996 = 9007199254740996"
    "round64 4 = 4" "round64 3 = 3"
    "round64 3002399751580332 = 3002399751580332"
    by code_simp+
  have u: "[0 ..< (2::nat)] = [0, 1]" by (simp add: upt_rec)
  have "sumOfIntervals [0, 9007199254740993, 9007199254740995] 3 = 9007199254740996"
    by (simp add: sumOfIntervals_def u round64_zero r)
  then show ?thesis
    by (simp add: averageInterval_def r int64_of_real_def)
qed

lemma interpolate_fields_not_Error:
  "interpolate_fields ts samples n a i chs acc \<noteq> Error e"
proof (induction chs arbitrary: acc)
  case Nil
  show ?case by simp
next
  case (Cons c chs)
  show ?case
  proof (cases "interpolate_field ts samples n a i c")
    case (Inl p)
    then show ?thesis by simp
  next
    case (Inr v)
    then show ?thesis using Cons.IH by simp
  qed
qed

lemma interpolate_fields_Ok:
  "(\<forall>ch \<in> set chs. \<exists>v. interpolate_field ts samples n a i ch = Inr v)
     \<Longrightarrow> \<exists>s. interpolate_fields ts samples n a i chs acc = Ok s"
proof (induction chs arbitrary: acc)
  case Nil
  show ?case by simp
next
  case (Cons c chs)
  from Cons.prems obtain v where v: "interpolate_field ts samples n a i c = Inr v" by auto
  from Cons.prems have "\<forall>ch \<in> set chs. \<exists>v. interpolate_field ts samples n a i ch = Inr v"
    by simp
  from Cons.IH[OF this] show ?case using v by simp
qed



lemma interpolate_field_eq:
  assumes "0 \<le> a" "a < int (length ts)"
    and "\<forall>k < length ts. fmlookup samples (ts ! k) \<noteq> None"
  shows "\<exists>lt ls rt rs.
           left_scan ts samples ch a = Inr (lt, ls) \<and> fmlookup samples lt = Some ls
         \<and> right_scan ts samples ch (int (length ts)) a = Inr (rt, rs) \<and> fmlookup samples rt = Some rs
         \<and> interpolate_field ts samples (length ts) i a ch =
             (case Field ch ls of
                None \<Rightarrow> Inl NilReading
              | Some lv \<Rightarrow>
                  (case Field ch rs of
                     None \<Rightarrow> Inl NilReading
                   | Some rv \<Rightarrow> Inr (blend i lt rt lv rv)))"
proof -
  from left_scan_spec[OF assms, of ch] obtain k ls where
    l: "left_scan ts samples ch a = Inr (ts ! nat k, ls)" "fmlookup samples (ts ! nat k) = Some ls"
    by blast
  from right_scan_spec[OF assms refl, of ch] obtain k' rs where
    r: "right_scan ts samples ch (int (length ts)) a = Inr (ts ! nat k', rs)"
       "fmlookup samples (ts ! nat k') = Some rs"
    by blast
  show ?thesis
    using l r by (simp add: interpolate_field_def)
qed



lemma interpolate_field_dense:
  assumes "0 \<le> a" "a < int (length ts)"
    and "\<forall>k < length ts. fmlookup samples (ts ! k) \<noteq> None"
    and "\<forall>t s. fmlookup samples t = Some s \<longrightarrow> Field ch s \<noteq> None"
  shows "\<exists>v. interpolate_field ts samples (length ts) i a ch = Inr v"
proof -
  from interpolate_field_eq[OF assms(1-3), of ch i] assms(4)
  show ?thesis by (fastforce split: option.splits)
qed

lemma InterpolateSample_unfold:
  assumes "fmlookup hardware hardwareId = Some samples" "fmdom samples \<noteq> {||}"
  shows "InterpolateSample hardware hardwareId atTime =
     (let ts = sorted_list_of_fset (fmdom samples); n = fcard (fmdom samples);
          i = UnixMilli atTime
      in if i < ts ! 0 + averageInterval ts n \<or> ts ! (n - 1) - averageInterval ts n < i
         then Error (InsufficientDensity atTime)
         else interpolate_fields ts samples n i (Search (int n) (\<lambda>index. i \<le> ts ! nat index))
                channels (new_Sample atTime))"
proof -
  have "fcard (fmdom samples) \<noteq> 0" using assms(2) by (simp add: fcard_0_eq)
  then show ?thesis using assms(1) by (simp add: InterpolateSample_def Let_def)
qed

lemma anchor_in_range:
  assumes "fmdom samples \<noteq> {||}"
    and "ts = sorted_list_of_fset (fmdom samples)" "n = fcard (fmdom samples)"
    and "i \<le> ts ! (n - 1) - averageInterval ts n"
    and "list_all (\<lambda>t. \<bar>t\<bar> < 2 ^ 52) ts"
  shows "0 \<le> Search (int n) (\<lambda>index. i \<le> ts ! nat index)"
    and "Search (int n) (\<lambda>index. i \<le> ts ! nat index) < int (length ts)"
    and "i \<le> ts ! nat (Search (int n) (\<lambda>index. i \<le> ts ! nat index))"
    and "Search (int n) (\<lambda>index. i \<le> ts ! nat index) = 0
         \<or> ts ! nat (Search (int n) (\<lambda>index. i \<le> ts ! nat index) - 1) < i"
proof -
  have len: "n = length ts" using assms(2,3) by (simp add: sorted_list_of_fset_length)
  have "0 < fcard (fmdom samples)" using assms(1) by (metis fcard_0_eq gr0I)
  then have n0: "0 < int n" using assms(3) by simp
  have srt: "sorted ts" using assms(2) by (simp add: sorted_list_of_fset_sorted)
  have dst: "distinct ts" using assms(2) by (simp add: sorted_list_of_fset_distinct)
  have npos: "0 < n" using n0 by simp
  have "0 \<le> averageInterval ts n"
    by (rule averageInterval_sorted(2)[OF srt dst len npos assms(5)])
  then have "i \<le> ts ! (n - 1)" using assms(4) by simp
  moreover have "nat (int n - 1) = n - 1" by simp
  ultimately have f: "(\<lambda>index. i \<le> ts ! nat index) (int n - 1)" by simp
  note S = Search_anchor[OF n0, of "\<lambda>index. i \<le> ts ! nat index", OF f]
  show "0 \<le> Search (int n) (\<lambda>index. i \<le> ts ! nat index)" using S(1) .
  show "Search (int n) (\<lambda>index. i \<le> ts ! nat index) < int (length ts)" using S(2) len by simp
  show "i \<le> ts ! nat (Search (int n) (\<lambda>index. i \<le> ts ! nat index))" using S(3) .
  show "Search (int n) (\<lambda>index. i \<le> ts ! nat index) = 0
         \<or> ts ! nat (Search (int n) (\<lambda>index. i \<le> ts ! nat index) - 1) < i"
    using S(4) by auto
qed

lemma dense_iff:
  "dense samples \<longleftrightarrow> (\<forall>t s ch. fmlookup samples t = Some s \<longrightarrow> Field ch s \<noteq> None)"
  unfolding dense_def fmpred_iff list_all_iff using channels_all by blast

lemma InterpolateSample_dense_Ok:
  assumes "fmlookup hardware hardwareId = Some samples" "fmdom samples \<noteq> {||}"
    and "dense samples"
    and "list_all (\<lambda>t. \<bar>t\<bar> < 2 ^ 52) (sorted_list_of_fset (fmdom samples))"
    and "sorted_list_of_fset (fmdom samples) ! 0
           + averageInterval (sorted_list_of_fset (fmdom samples)) (fcard (fmdom samples))
         \<le> UnixMilli atTime"
    and "UnixMilli atTime \<le> sorted_list_of_fset (fmdom samples) ! (fcard (fmdom samples) - 1)
           - averageInterval (sorted_list_of_fset (fmdom samples)) (fcard (fmdom samples))"
  shows "\<exists>s. InterpolateSample hardware hardwareId atTime = Ok s"
proof -
  define ts where "ts = sorted_list_of_fset (fmdom samples)"
  define n where "n = fcard (fmdom samples)"
  define i where "i = UnixMilli atTime"
  define a where "a = Search (int n) (\<lambda>index. i \<le> ts ! nat index)"
  have len: "n = length ts" by (simp add: ts_def n_def sorted_list_of_fset_length)
  have keys: "\<forall>k < length ts. fmlookup samples (ts ! k) \<noteq> None"
    unfolding ts_def using timestamps_keys by blast
  have hi: "i \<le> ts ! (n - 1) - averageInterval ts n" using assms(6) by (simp add: ts_def n_def i_def)
  have bd: "list_all (\<lambda>t. \<bar>t\<bar> < 2 ^ 52) ts" using assms(4) by (simp add: ts_def)
  note A = anchor_in_range[OF assms(2) ts_def n_def hi bd, folded a_def]
  have "\<forall>ch \<in> set channels. \<exists>v. interpolate_field ts samples n i a ch = Inr v"
    unfolding len using interpolate_field_dense[OF A(1,2) keys] assms(3) dense_iff by blast
  from interpolate_fields_Ok[OF this]
  obtain s where "interpolate_fields ts samples n i a channels (new_Sample atTime) = Ok s"
    by blast
  moreover have "InterpolateSample hardware hardwareId atTime
      = interpolate_fields ts samples n i a channels (new_Sample atTime)"
    unfolding InterpolateSample_unfold[OF assms(1,2)] Let_def
    using assms(5,6) by (simp add: ts_def n_def i_def a_def)
  ultimately show ?thesis by simp
qed

lemma fan1_lookup: "fmlookup fan1_store ''fan1'' = Some fan1_samples"
  by (simp add: fan1_store_def)

lemma fan1_timestamps:
  "sorted_list_of_fset (fmdom fan1_samples) = [0, 1000, 2000, 3000, 4000]"
  "fcard (fmdom fan1_samples) = 5"
  by code_simp+

lemma fan1_nonempty: "fmdom fan1_samples \<noteq> {||}"
  by code_simp

lemma fan1_averageInterval: "averageInterval [0, 1000, 2000, 3000, 4000] 5 = 800"
  using averageInterval_eval[of "[0, 1000, 2000, 3000, 4000]" 5] by simp

lemma fan1_dense: "dense fan1_samples"
  by code_simp

lemma fan1_Ok:
  assumes "800 \<le> UnixMilli atTime" "UnixMilli atTime \<le> 3200"
  shows "\<exists>s. InterpolateSample fan1_store ''fan1'' atTime = Ok s"
  using assms
  by (intro InterpolateSample_dense_Ok[OF fan1_lookup fan1_nonempty fan1_dense])
     (simp_all add: fan1_timestamps fan1_averageInterval)

lemma tabulate_loop_same_timestamp:
  assumes "tabulate_loop hardware requestData timestamp tabulatedHardware = Some y"
  shows "\<not> (Before timestamp (To requestData)
            \<and> (\<exists>s. InterpolateSample hardware (Id_req requestData) timestamp = Ok s)
            \<and> Count requestData \<noteq> 0)"
  using assms
proof (induction rule: tabulate_loop.raw_induct[rotated 1, consumes 1])
  case (1 tabulate_loop hardware requestData timestamp tabulatedHardware y)
  show ?case
  proof
    assume c: "Before timestamp (To requestData)
            \<and> (\<exists>s. InterpolateSample hardware (Id_req requestData) timestamp = Ok s)
            \<and> Count requestData \<noteq> 0"
    then obtain s where s: "InterpolateSample hardware (Id_req requestData) timestamp = Ok s"
      by blast
    from 1(2) c s have "tabulate_loop hardware requestData timestamp
        (fmupd (Format timestamp) s tabulatedHardware) = Some y"
      by (simp add: post_statement_def)
    from 1(1)[OF this] c show False by simp
  qed
qed

lemma tabulate_loop_diverges:
  assumes "Before timestamp (To requestData)"
    and "InterpolateSample hardware (Id_req requestData) timestamp = Ok s"
    and "Count requestData \<noteq> 0"
  shows "tabulate_loop hardware requestData timestamp tabulatedHardware = None"
proof (cases "tabulate_loop hardware requestData timestamp tabulatedHardware")
  case None then show ?thesis .
next
  case (Some y)
  from tabulate_loop_same_timestamp[OF this] assms show ?thesis by blast
qed

lemma InterpolateSample_Ok_HasSamples:
  "InterpolateSample hardware hardwareId atTime = Ok s \<Longrightarrow> HasSamples hardware hardwareId"
  by (auto simp: InterpolateSample_def HasSamples_def split: option.splits)

lemma InterpolateSample_density_iff:
  assumes "fmlookup hardware hardwareId = Some samples" and "fmdom samples \<noteq> {||}"
  shows "InterpolateSample hardware hardwareId atTime = Error (InsufficientDensity atTime)
     \<longleftrightarrow> (UnixMilli atTime < sorted_list_of_fset (fmdom samples) ! 0
              + averageInterval (sorted_list_of_fset (fmdom samples)) (fcard (fmdom samples))
          \<or> sorted_list_of_fset (fmdom samples) ! (fcard (fmdom samples) - 1)
              - averageInterval (sorted_list_of_fset (fmdom samples)) (fcard (fmdom samples))
            < UnixMilli atTime)"
  unfolding InterpolateSample_unfold[OF assms] Let_def
  by (simp add: interpolate_fields_not_Error)

lemma dense_Sample_Field: "Field ch (dense_Sample ms v) = Some (Fin v)"
  by (cases ch) (simp_all add: dense_Sample_def)

lemma fadd_NaN_right: "fadd x NaN = NaN"
  by (cases x) simp_all

lemma fmul_NaN_right: "fmul x NaN = NaN"
  by (cases x) simp_all

lemma blend_zero_sum:
  "blend atTimestamp 0 0 leftSampleValue rightSampleValue = NaN"
proof -
  have s: "fadd (float64_of_int 0) (float64_of_int 0) = Fin 0"
    by (simp add: float64_of_int_def round64_zero)
  have "fcos (fmul (Fin pi) (fdiv (float64_of_int atTimestamp) (Fin 0))) = NaN"
    by (simp add: float64_of_int_def)
  then have "fmul (Fin 0.5) (fsub (Fin 1) (fcos (fmul (Fin pi)
      (fdiv (float64_of_int atTimestamp) (Fin 0))))) = NaN"
    by (simp add: fsub_def)
  then show ?thesis
    unfolding blend_def Let_def s
    by (simp add: fadd_NaN_right fmul_NaN_right)
qed

lemma epoch_scans:
  "list_all (\<lambda>ch. left_scan [0, 1, 2] epoch_samples ch 0 = Inr (0, dense_Sample 0 20)
       \<and> right_scan [0, 1, 2] epoch_samples ch 3 0 = Inr (0, dense_Sample 0 20)) channels"
  by code_simp

lemma epoch_field: "interpolate_field [0, 1, 2] epoch_samples 3 0 0 ch = Inr NaN"
proof -
  have "left_scan [0, 1, 2] epoch_samples ch 0 = Inr (0, dense_Sample 0 20)
       \<and> right_scan [0, 1, 2] epoch_samples ch 3 0 = Inr (0, dense_Sample 0 20)"
    using epoch_scans channels_all[of ch] unfolding list_all_iff by blast
  then show ?thesis
    by (simp add: interpolate_field_def dense_Sample_Field blend_zero_sum)
qed

lemma epoch_timestamps:
  "sorted_list_of_fset (fmdom epoch_samples) = [0, 1, 2]"
  "fcard (fmdom epoch_samples) = 3"
  "fmdom epoch_samples \<noteq> {||}"
  by code_simp+

lemma epoch_anchor:
  "averageInterval [0, 1, 2] 3 = 0"
  "Search 3 (\<lambda>index. 0 \<le> [0, 1, 2::int] ! nat index) = 0"
proof -
  show "averageInterval [0, 1, 2] 3 = 0"
    using averageInterval_eval[of "[0, 1, 2]" 3] by simp
  show "Search 3 (\<lambda>index. 0 \<le> [0, 1, 2::int] ! nat index) = 0" by code_simp
qed

lemma epoch_InterpolateSample: "InterpolateSample epoch_store ''fan0'' 0 = Ok (all_NaN 0)"
proof -
  have l: "fmlookup epoch_store ''fan0'' = Some epoch_samples" by (simp add: epoch_store_def)
  have "interpolate_fields [0, 1, 2] epoch_samples 3 0 0 channels (new_Sample 0) = Ok (all_NaN 0)"
    by (simp add: channels_def epoch_field new_Sample_def all_NaN_def)
  then show ?thesis
    unfolding InterpolateSample_unfold[OF l epoch_timestamps(3)] Let_def
    by (simp add: epoch_timestamps epoch_anchor UnixMilli_def)
qed

lemma find_file_tag_all:
  "list_all (\<lambda>ch. find (\<lambda>c. file_tag c = file_tag ch) channels = Some ch) channels"
  by code_simp

lemma find_file_tag: "find (\<lambda>c. file_tag c = file_tag ch) channels = Some ch"
proof -
  have "\<forall>ch \<in> set channels. find (\<lambda>c. file_tag c = file_tag ch) channels = Some ch"
    using find_file_tag_all by (simp only: list_all_iff)
  then show ?thesis by (rule bspec) (rule channels_all)
qed

lemma file_tag_inj:
  assumes "file_tag ch = file_tag ch'"
  shows "ch = ch'"
proof -
  have "Some ch = find (\<lambda>c. file_tag c = file_tag ch) channels"
    by (simp only: find_file_tag)
  also have "\<dots> = find (\<lambda>c. file_tag c = file_tag ch') channels"
    by (simp only: assms)
  also have "\<dots> = Some ch'" by (rule find_file_tag)
  finally show ?thesis by simp
qed

lemma store_row_put: "store_row h (file_tag ch) t v hardware = Inr (put h t ch v hardware)"
  by (simp add: store_row_def put_def SetValueByDataFile_def find_file_tag Let_def)

lemma SetField_commute:
  "ch \<noteq> ch' \<Longrightarrow> SetField ch v (SetField ch' v' s) = SetField ch' v' (SetField ch v s)"
  by (cases ch; cases ch'; simp)

lemma Field_SetField: "Field ch (SetField ch' v s) = (if ch = ch' then v else Field ch s)"
  by (cases ch; cases ch'; simp)

lemma put_commute:
  assumes "(h, t, ch) \<noteq> (h', t', ch')"
  shows "put h t ch v (put h' t' ch' v' hardware) = put h' t' ch' v' (put h t ch v hardware)"
proof (cases "h = h'")
  case False
  then show ?thesis
    by (simp add: put_def Let_def fmupd_reorder_neq[of h h'])
next
  case h: True
  show ?thesis
  proof (cases "t = t'")
    case False
    then show ?thesis using h
      by (simp add: put_def Let_def fmupd_reorder_neq[of t t'])
  next
    case True
    then have "ch \<noteq> ch'" using h assms by simp
    then show ?thesis using h True
      by (simp add: put_def Let_def SetField_commute[of ch ch'])
  qed
qed

lemma put_lookup:
  "\<exists>samples s. fmlookup (put h t ch v hardware) h = Some samples
      \<and> fmlookup samples t = Some s \<and> Field ch s = Some v"
  by (simp add: put_def Let_def Field_SetField)


lemma fold_write_row_Inl: "fold write_row rows (Inl e) = Inl e"
  by (induction rows) auto

lemma read_records_fold:
  "list_all parsed rs
     \<Longrightarrow> read_records h f rs hardware = fold write_row (rows_of_records h f rs) (Inr hardware)"
proof (induction rs arbitrary: hardware)
  case Nil
  show ?case by simp
next
  case (Cons r rs)
  from Cons.prems have "parsed r" by simp
  then obtain t v where r: "r = Row (Some t) (Some v)" by (rule parsed.elims) auto
  from Cons.prems have rs: "list_all parsed rs" by simp
  show ?case
  proof (cases "store_row h f t v hardware")
    case (Inl e)
    then show ?thesis by (simp add: r fold_write_row_Inl)
  next
    case (Inr hardware')
    then show ?thesis using Cons.IH[OF rs] by (simp add: r)
  qed
qed

lemma walk_fold:
  "list_all (\<lambda>file. file_opens file \<and> list_all parsed (file_records file)) files
     \<Longrightarrow> walk files hardware = fold write_row (rows_of_files files) (Inr hardware)"
proof (induction files arbitrary: hardware)
  case Nil
  show ?case by (simp add: rows_of_files_def)
next
  case (Cons fl files)
  from Cons.prems have o: "file_opens fl" and p: "list_all parsed (file_records fl)"
    and rest: "list_all (\<lambda>file. file_opens file \<and> list_all parsed (file_records file)) files"
    by simp_all
  have rr: "read_records (file_hardwareId fl) (file_sampleDataName fl) (file_records fl) hardware
      = fold write_row (rows_of fl) (Inr hardware)"
    unfolding rows_of_def by (rule read_records_fold[OF p])
  show ?case
  proof (cases "fold write_row (rows_of fl) (Inr hardware)")
    case (Inl e)
    then show ?thesis using o rr by (simp add: rows_of_files_def fold_write_row_Inl)
  next
    case (Inr hardware')
    then show ?thesis using o rr Cons.IH[OF rest] by (simp add: rows_of_files_def)
  qed
qed

lemma rows_of_records_names:
  "x \<in> set (rows_of_records h f rs) \<Longrightarrow> fst x = h \<and> fst (snd x) = f"
  by (induction h f rs rule: rows_of_records.induct) auto

lemma rows_of_files_known:
  assumes "list_all well_formed files" and "x \<in> set (rows_of_files files)"
  shows "\<exists>ch. fst (snd x) = file_tag ch"
proof -
  from assms(2) obtain fl where f: "fl \<in> set files" "x \<in> set (rows_of fl)"
    by (auto simp: rows_of_files_def)
  then have "fst (snd x) = file_sampleDataName fl"
    using rows_of_records_names unfolding rows_of_def by blast
  moreover have "file_sampleDataName fl \<in> set (map file_tag channels)"
    using assms(1) f(1) by (simp add: list_all_iff well_formed_def)
  ultimately show ?thesis by auto
qed

lemma write_row_commute:
  assumes "\<exists>ch. fst (snd x) = file_tag ch" and "\<exists>ch. fst (snd y) = file_tag ch"
    and "triplet x \<noteq> triplet y"
  shows "write_row x (write_row y st) = write_row y (write_row x st)"
proof -
  obtain h f t v where x: "x = (h, f, t, v)" by (cases x) auto
  obtain h' f' t' v' where y: "y = (h', f', t', v')" by (cases y) auto
  from assms(1) x obtain ch where f: "f = file_tag ch" by auto
  from assms(2) y obtain ch' where f': "f' = file_tag ch'" by auto
  from assms(3) have ne: "(h, t, ch) \<noteq> (h', t', ch')" by (auto simp: x y f f')
  show ?thesis
  proof (cases st)
    case (Inl e)
    then show ?thesis by (simp add: x y)
  next
    case (Inr hardware)
    then show ?thesis
      by (simp add: x y f f' store_row_put put_commute[OF ne])
  qed
qed

lemma fold_write_row_Inr:
  "(\<forall>x \<in> set rows. \<exists>ch. fst (snd x) = file_tag ch)
     \<Longrightarrow> \<exists>hardware'. fold write_row rows (Inr hardware) = Inr hardware'"
proof (induction rows arbitrary: hardware)
  case Nil
  show ?case by simp
next
  case (Cons x rows)
  obtain h f t v where x: "x = (h, f, t, v)" by (cases x) auto
  from Cons.prems x obtain ch where f: "f = file_tag ch" by auto
  from Cons.prems have "\<forall>x \<in> set rows. \<exists>ch. fst (snd x) = file_tag ch" by simp
  from Cons.IH[OF this] show ?case by (simp add: x f store_row_put)
qed

lemma fold_write_row_permuted:
  assumes "\<forall>x \<in> set rows. \<exists>ch. fst (snd x) = file_tag ch"
    and "distinct (map triplet rows)" and "mset rows = mset rows'"
  shows "fold write_row rows = fold write_row rows'"
proof (rule fold_multiset_equiv[OF _ assms(3)])
  fix x y assume xy: "x \<in> set rows" "y \<in> set rows"
  show "write_row x \<circ> write_row y = write_row y \<circ> write_row x"
  proof (cases "x = y")
    case True
    then show ?thesis by simp
  next
    case False
    have "inj_on triplet (set rows)" using assms(2) by (simp add: distinct_map)
    then have "triplet x \<noteq> triplet y" using xy False by (auto dest: inj_onD)
    then show ?thesis
      using write_row_commute assms(1) xy by (intro ext) (simp add: comp_def)
  qed
qed

lemma fold_write_row_stored:
  assumes "\<forall>x \<in> set rows. \<exists>ch. fst (snd x) = file_tag ch"
    and "distinct (map triplet rows)" and "(h, f, t, v) \<in> set rows"
    and "fold write_row rows (Inr hardware) = Inr hardware'"
  shows "\<exists>samples s ch. fmlookup hardware' h = Some samples \<and> fmlookup samples t = Some s
           \<and> file_tag ch = f \<and> Field ch s = Some v"
proof -
  let ?x = "(h, f, t, v)"
  from assms(1,3) obtain ch where f: "f = file_tag ch" by fastforce
  have m: "mset rows = mset (remove1 ?x rows @ [?x])" using assms(3) by simp
  have known': "\<forall>x \<in> set (remove1 ?x rows). \<exists>ch. fst (snd x) = file_tag ch"
    using assms(1) by (meson notin_set_remove1)
  from fold_write_row_Inr[OF known'] obtain hardware'' where
    h'': "fold write_row (remove1 ?x rows) (Inr hardware) = Inr hardware''"
    by blast
  have "fold write_row rows (Inr hardware) = fold write_row (remove1 ?x rows @ [?x]) (Inr hardware)"
    using fold_write_row_permuted[OF assms(1,2) m] by simp
  also have "\<dots> = Inr (put h t ch v hardware'')"
    using h'' unfolding f by (simp add: store_row_put)
  finally have "hardware' = put h t ch v hardware''" using assms(4) by simp
  then show ?thesis using put_lookup[of h t ch v hardware''] f by blast
qed

text \<open>A device of a store built by \<^verbatim>\<open>PopulateSamples\<close> has at least one sample.\<close>

lemma store_row_nonempty:
  assumes "\<forall>d m. fmlookup hardware d = Some m \<longrightarrow> fmdom m \<noteq> {||}"
    and "store_row h f t v hardware = Inr hardware'"
  shows "\<forall>d m. fmlookup hardware' d = Some m \<longrightarrow> fmdom m \<noteq> {||}"
  using assms
  by (auto simp: store_row_def Let_def split: prod.splits if_splits)

lemma read_records_nonempty:
  "\<forall>d m. fmlookup hardware d = Some m \<longrightarrow> fmdom m \<noteq> {||}
     \<Longrightarrow> read_records h f rs hardware = Inr hardware'
     \<Longrightarrow> \<forall>d m. fmlookup hardware' d = Some m \<longrightarrow> fmdom m \<noteq> {||}"
proof (induction h f rs hardware rule: read_records.induct)
  case (5 h f sampleTimestamp sampleDataValue rs hardware)
  from "5.prems"(2) obtain hw where
    hw: "store_row h f sampleTimestamp sampleDataValue hardware = Inr hw"
      "read_records h f rs hw = Inr hardware'"
    by (auto split: sum.splits)
  from "5.IH"[OF hw(1) store_row_nonempty[OF "5.prems"(1) hw(1)] hw(2)] show ?case .
qed simp_all

lemma walk_nonempty:
  "\<forall>d m. fmlookup hardware d = Some m \<longrightarrow> fmdom m \<noteq> {||}
     \<Longrightarrow> walk files hardware = Inr hardware'
     \<Longrightarrow> \<forall>d m. fmlookup hardware' d = Some m \<longrightarrow> fmdom m \<noteq> {||}"
proof (induction files arbitrary: hardware)
  case Nil
  then show ?case by simp
next
  case (Cons fl files)
  from Cons.prems(2) obtain hw where
    hw: "read_records (file_hardwareId fl) (file_sampleDataName fl) (file_records fl) hardware = Inr hw"
      "walk files hw = Inr hardware'"
    by (auto split: sum.splits if_splits)
  from Cons.IH[OF read_records_nonempty[OF Cons.prems(1) hw(1)] hw(2)] show ?case .
qed

lemma PopulateSamples_nonempty:
  assumes "PopulateSamples files = Inr hardware" and "fmlookup hardware h = Some samples"
  shows "fmdom samples \<noteq> {||}"
proof -
  have "\<forall>d m. fmlookup (fmempty :: store) d = Some m \<longrightarrow> fmdom m \<noteq> {||}" by simp
  from walk_nonempty[OF this assms(1)[unfolded PopulateSamples_def]] assms(2)
  show ?thesis by blast
qed

lemma fan1_request_Ok:
  assumes "800 \<le> from_ms" "from_ms \<le> 3200"
  shows "\<exists>s. InterpolateSample fan1_store (Id_req (tabulate_request from_ms to_ms n))
           (From (tabulate_request from_ms to_ms n)) = Ok s"
  using assms fan1_Ok[of "time_UnixMilli from_ms"]
  by (simp add: tabulate_request_def UnixMilli_def time_UnixMilli_def)

section \<open>The claims\<close>

text \<open>
  C1 (fails on the code). The claim: a tabulation from 1000 ms to 4000 ms with count 3 on
  the device with samples at 0, 1000, ..., 4000 ms yields three entries, at 1000, 2000 and
  3000 ms. The code: the loop never advances its timestamp, the interpolation at 1000 ms
  succeeds each time, and the handler never returns.
\<close>

theorem Handle_fan1_never_returns:
  "Handle fan1_store (tabulate_request 1000 4000 3) = None"
proof -
  let ?rq = "tabulate_request 1000 4000 3"
  have b: "Before (From ?rq) (To ?rq)"
    by (simp add: tabulate_request_def Before_def time_UnixMilli_def)
  obtain s where s: "InterpolateSample fan1_store (Id_req ?rq) (From ?rq) = Ok s"
    using fan1_request_Ok[of 1000 4000 3] by auto
  have c: "Count ?rq \<noteq> 0" by (simp add: tabulate_request_def)
  have "tabulate_loop fan1_store ?rq (From ?rq) fmempty = None"
    by (rule tabulate_loop_diverges[OF b s c])
  moreover have "HasSamples fan1_store (Id_req ?rq)"
    by (rule InterpolateSample_Ok_HasSamples[OF s])
  ultimately show ?thesis by (simp add: Handle_def)
qed

text \<open>
  C2 (fails on the code). The claim: for \<open>From\<close> before \<open>To\<close> and a count of at least 1
  the loop ends after count iterations. The code: whenever the interpolation at \<open>From\<close>
  succeeds, the loop runs forever with the same timestamp, and the handler never returns.
\<close>

theorem Handle_never_returns:
  assumes "Before (From requestData) (To requestData)" and "1 \<le> Count requestData"
    and "InterpolateSample hardware (Id_req requestData) (From requestData) = Ok s"
  shows "Handle hardware requestData = None"
proof -
  have c: "Count requestData \<noteq> 0" using assms(2) by simp
  have "tabulate_loop hardware requestData (From requestData) fmempty = None"
    by (rule tabulate_loop_diverges[OF assms(1,3) c])
  moreover have "HasSamples hardware (Id_req requestData)"
    by (rule InterpolateSample_Ok_HasSamples[OF assms(3)])
  ultimately show ?thesis by (simp add: Handle_def)
qed

theorem Handle_never_returns_witness:
  "Before (From (tabulate_request 1500 3000 2)) (To (tabulate_request 1500 3000 2))
   \<and> 1 \<le> Count (tabulate_request 1500 3000 2)
   \<and> (\<exists>s. InterpolateSample fan1_store (Id_req (tabulate_request 1500 3000 2))
             (From (tabulate_request 1500 3000 2)) = Ok s)
   \<and> Handle fan1_store (tabulate_request 1500 3000 2) = None"
proof -
  let ?rq = "tabulate_request 1500 3000 2"
  have b: "Before (From ?rq) (To ?rq)"
    by (simp add: tabulate_request_def Before_def time_UnixMilli_def)
  have c: "1 \<le> Count ?rq" by (simp add: tabulate_request_def)
  obtain s where s: "InterpolateSample fan1_store (Id_req ?rq) (From ?rq) = Ok s"
    using fan1_request_Ok[of 1500 3000 2] by auto
  from Handle_never_returns[OF b c s] b c s show ?thesis by blast
qed

text \<open>
  C3 (corrected). The claim: the density error is returned exactly when the query
  timestamp lies outside \<open>[t[0] + avg, t[n-1] - avg]\<close>, with \<open>avg = (t[n-1] - t[0]) / n\<close>.
  The code: \<open>avg\<close> is the quotient converted to \<^verbatim>\<open>int64\<close>, so its fraction is dropped, and
  the query is compared in whole milliseconds (\<^verbatim>\<open>at.UnixMilli()\<close>). For samples at 0,
  1000 and 2000 ms a query at 666 ms is accepted, below \<open>2000 / 3\<close>, and so is a query at
  1334.9 ms, above \<open>2000 - 666\<close>. And the sum of the gaps is a \<^verbatim>\<open>float64\<close>: for samples
  at 0, \<open>2^53 + 1\<close> and \<open>2^53 + 3\<close> ms it is rounded, \<open>avg\<close> is one more than
  \<open>(t[n-1] - t[0]) div n\<close>, and a query at that quotient is rejected.
\<close>

theorem density_bounds_counterexample:
  "sorted_list_of_fset (fmdom trio_samples) = [0, 1000, 2000]
   \<and> is_Ok (InterpolateSample trio_store ''trio'' (time_UnixMilli 666))
   \<and> (666::real) < 0 + (2000 - 0) / 3
   \<and> is_Ok (InterpolateSample trio_store ''trio'' 1334900000)
   \<and> real_of_int (2000 - (2000 - 0) div 3) < 1334900000 / 1000000
   \<and> sorted_list_of_fset (fmdom far_samples) = [0, 9007199254740993, 9007199254740995]
   \<and> averageInterval [0, 9007199254740993, 9007199254740995] 3 = 3002399751580332
   \<and> (9007199254740995 - 0) div 3 = (3002399751580331::int)
   \<and> InterpolateSample far_store ''far'' (time_UnixMilli 3002399751580331)
       = Error (InsufficientDensity (time_UnixMilli 3002399751580331))"
proof -
  have l: "fmlookup trio_store ''trio'' = Some trio_samples" by (simp add: trio_store_def)
  have ts: "sorted_list_of_fset (fmdom trio_samples) = [0, 1000, 2000]"
    "fcard (fmdom trio_samples) = 3"
    by code_simp+
  have ne: "fmdom trio_samples \<noteq> {||}" by code_simp
  have d: "dense trio_samples" by code_simp
  have av: "averageInterval [0, 1000, 2000] 3 = 666"
    using averageInterval_eval[of "[0, 1000, 2000]" 3] by simp
  have u: "UnixMilli (time_UnixMilli 666) = 666" "UnixMilli 1334900000 = 1334"
    by (simp_all add: UnixMilli_def time_UnixMilli_def)
  have "\<exists>s. InterpolateSample trio_store ''trio'' (time_UnixMilli 666) = Ok s"
    by (rule InterpolateSample_dense_Ok[OF l ne d]) (simp_all add: ts av u)
  then have a: "is_Ok (InterpolateSample trio_store ''trio'' (time_UnixMilli 666))" by auto
  have "\<exists>s. InterpolateSample trio_store ''trio'' 1334900000 = Ok s"
    by (rule InterpolateSample_dense_Ok[OF l ne d]) (simp_all add: ts av u)
  then have b: "is_Ok (InterpolateSample trio_store ''trio'' 1334900000)" by auto
  have r: "(666::real) < 0 + (2000 - 0) / 3"
    "real_of_int (2000 - (2000 - 0) div 3) < 1334900000 / 1000000"
    by simp_all
  have fl: "fmlookup far_store ''far'' = Some far_samples" by (simp add: far_store_def)
  have fts: "sorted_list_of_fset (fmdom far_samples) = [0, 9007199254740993, 9007199254740995]"
    "fcard (fmdom far_samples) = 3"
    by code_simp+
  have fne: "fmdom far_samples \<noteq> {||}" by code_simp
  have fav: "averageInterval [0, 9007199254740993, 9007199254740995] 3 = 3002399751580332"
    by (rule averageInterval_far)
  have q: "(9007199254740995 - 0) div 3 = (3002399751580331::int)" by simp
  have fu: "UnixMilli (time_UnixMilli 3002399751580331) = 3002399751580331"
    by (simp add: UnixMilli_def time_UnixMilli_def)
  have e: "InterpolateSample far_store ''far'' (time_UnixMilli 3002399751580331)
       = Error (InsufficientDensity (time_UnixMilli 3002399751580331))"
    unfolding InterpolateSample_density_iff[OF fl fne] by (simp add: fts fav fu)
  show ?thesis using ts(1) a r(1) b r(2) fts(1) fav q e by blast
qed

text \<open>
  C3, as amended. For a device of the store with at least one sample (as every device of a
  store built by \<^verbatim>\<open>PopulateSamples\<close> has) and timestamps below \<open>2^52\<close> in magnitude, with
  \<open>t\<close> the timestamps in ascending order and \<open>n\<close> their number: the \<^verbatim>\<open>float64\<close> sum of
  the gaps is \<open>t[n-1] - t[0]\<close>, the average interval is the integer quotient of that sum by
  \<open>n\<close>, and \<^verbatim>\<open>InterpolateSample\<close> returns the density error exactly when the millisecond
  of the query is before \<open>t[0] + avg\<close> or after \<open>t[n-1] - avg\<close>.
\<close>

theorem InterpolateSample_InsufficientDensity_iff:
  assumes "fmlookup hardware hardwareId = Some samples" and "fmdom samples \<noteq> {||}"
    and "list_all (\<lambda>t. \<bar>t\<bar> < 2 ^ 52) (sorted_list_of_fset (fmdom samples))"
  shows "let t = sorted_list_of_fset (fmdom samples); n = fcard (fmdom samples);
             avg = averageInterval t n
         in sorted t \<and> distinct t \<and> length t = n
          \<and> sumOfIntervals t n = real_of_int (t ! (n - 1) - t ! 0)
          \<and> avg = (t ! (n - 1) - t ! 0) div int n
          \<and> (InterpolateSample hardware hardwareId atTime = Error (InsufficientDensity atTime)
               \<longleftrightarrow> (UnixMilli atTime < t ! 0 + avg \<or> t ! (n - 1) - avg < UnixMilli atTime))"
proof -
  define t where "t = sorted_list_of_fset (fmdom samples)"
  define n where "n = fcard (fmdom samples)"
  have srt: "sorted t" by (simp add: t_def sorted_list_of_fset_sorted)
  have dst: "distinct t" by (simp add: t_def sorted_list_of_fset_distinct)
  have len: "n = length t" by (simp add: t_def n_def sorted_list_of_fset_length)
  have bd: "list_all (\<lambda>t. \<bar>t\<bar> < 2 ^ 52) t" using assms(3) by (simp add: t_def)
  have "0 < fcard (fmdom samples)" using assms(2) by (metis fcard_0_eq gr0I)
  then have npos: "0 < n" by (simp add: n_def)
  have sm: "sumOfIntervals t n = real_of_int (t ! (n - 1) - t ! 0)"
    by (rule sumOfIntervals_telescope[OF bd len])
  have av: "averageInterval t n = (t ! (n - 1) - t ! 0) div int n"
    by (rule averageInterval_sorted(1)[OF srt dst len npos bd])
  have iff: "InterpolateSample hardware hardwareId atTime = Error (InsufficientDensity atTime)
     \<longleftrightarrow> (UnixMilli atTime < t ! 0 + averageInterval t n
          \<or> t ! (n - 1) - averageInterval t n < UnixMilli atTime)"
    unfolding t_def n_def by (rule InterpolateSample_density_iff[OF assms(1,2)])
  show ?thesis
    unfolding Let_def t_def[symmetric] n_def[symmetric]
    using srt dst len sm av iff by simp
qed

theorem InterpolateSample_InsufficientDensity_iff_witness:
  "fmlookup fan1_store ''fan1'' = Some fan1_samples \<and> fmdom fan1_samples \<noteq> {||}
   \<and> list_all (\<lambda>t. \<bar>t\<bar> < 2 ^ 52) (sorted_list_of_fset (fmdom fan1_samples))
   \<and> sorted_list_of_fset (fmdom fan1_samples) = [0, 1000, 2000, 3000, 4000]
   \<and> averageInterval (sorted_list_of_fset (fmdom fan1_samples)) (fcard (fmdom fan1_samples)) = 800
   \<and> InterpolateSample fan1_store ''fan1'' (time_UnixMilli 700)
       = Error (InsufficientDensity (time_UnixMilli 700))
   \<and> InterpolateSample fan1_store ''fan1'' (time_UnixMilli 1500)
       \<noteq> Error (InsufficientDensity (time_UnixMilli 1500))
   \<and> (\<exists>s. InterpolateSample fan1_store ''fan1'' (time_UnixMilli 1500) = Ok s)"
proof -
  have u: "UnixMilli (time_UnixMilli 700) = 700" "UnixMilli (time_UnixMilli 1500) = 1500"
    by (simp_all add: UnixMilli_def time_UnixMilli_def)
  have bd: "list_all (\<lambda>t. \<bar>t\<bar> < 2 ^ 52) (sorted_list_of_fset (fmdom fan1_samples))"
    by (simp add: fan1_timestamps)
  have av: "averageInterval (sorted_list_of_fset (fmdom fan1_samples)) (fcard (fmdom fan1_samples))
      = 800"
    using InterpolateSample_InsufficientDensity_iff[OF fan1_lookup fan1_nonempty bd]
    by (simp add: Let_def fan1_timestamps)
  have a: "InterpolateSample fan1_store ''fan1'' (time_UnixMilli 700)
       = Error (InsufficientDensity (time_UnixMilli 700))"
    using InterpolateSample_InsufficientDensity_iff[OF fan1_lookup fan1_nonempty bd, of "time_UnixMilli 700"]
    by (simp add: Let_def fan1_timestamps u)
  have b: "InterpolateSample fan1_store ''fan1'' (time_UnixMilli 1500)
       \<noteq> Error (InsufficientDensity (time_UnixMilli 1500))"
    using InterpolateSample_InsufficientDensity_iff[OF fan1_lookup fan1_nonempty bd, of "time_UnixMilli 1500"]
    by (simp add: Let_def fan1_timestamps u)
  have c: "\<exists>s. InterpolateSample fan1_store ''fan1'' (time_UnixMilli 1500) = Ok s"
    by (rule fan1_Ok) (simp_all add: u)
  show ?thesis
    using a b c av bd fan1_lookup fan1_nonempty by (simp add: fan1_timestamps)
qed

text \<open>
  C4 (corrected). The claim: with exactly one stored sample the density check rejects
  every query. The code: the average interval is then 0, and a query at the millisecond
  of the sample passes the check and is interpolated.
\<close>

theorem solo_query_at_sample_counterexample:
  "fmlookup solo_store ''solo'' = Some solo_samples \<and> fcard (fmdom solo_samples) = 1
   \<and> InterpolateSample solo_store ''solo'' (time_UnixMilli 1000)
       \<noteq> Error (InsufficientDensity (time_UnixMilli 1000))
   \<and> is_Ok (InterpolateSample solo_store ''solo'' (time_UnixMilli 1000))"
proof -
  have l: "fmlookup solo_store ''solo'' = Some solo_samples" by (simp add: solo_store_def)
  have ts: "sorted_list_of_fset (fmdom solo_samples) = [1000]" "fcard (fmdom solo_samples) = 1"
    by code_simp+
  have ne: "fmdom solo_samples \<noteq> {||}" by code_simp
  have d: "dense solo_samples" by code_simp
  have "averageInterval [1000] 1 = 0" by (rule averageInterval_single)
  then have av: "averageInterval [1000] (Suc 0) = 0" by simp
  have u: "UnixMilli (time_UnixMilli 1000) = 1000" by (simp add: UnixMilli_def time_UnixMilli_def)
  have "\<exists>s. InterpolateSample solo_store ''solo'' (time_UnixMilli 1000) = Ok s"
    by (rule InterpolateSample_dense_Ok[OF l ne d]) (simp_all add: ts av u)
  then show ?thesis using l ts by auto
qed

text \<open>
  C4, as amended. With exactly one stored sample, at the millisecond \<open>t0\<close>, the density
  check rejects a query exactly when its millisecond is not \<open>t0\<close>.
\<close>

theorem InterpolateSample_single_sample:
  assumes "fmlookup hardware hardwareId = Some samples" and "fmdom samples = {|t0|}"
  shows "InterpolateSample hardware hardwareId atTime = Error (InsufficientDensity atTime)
           \<longleftrightarrow> UnixMilli atTime \<noteq> t0"
proof -
  have ne: "fmdom samples \<noteq> {||}" using assms(2) by simp
  have ts: "sorted_list_of_fset (fmdom samples) = [t0]"
    using assms(2) by (simp add: sorted_list_of_fset.rep_eq)
  have n: "fcard (fmdom samples) = 1" using assms(2) by (simp add: fcard.rep_eq)
  have av: "averageInterval [t0] 1 = 0" by (rule averageInterval_single)
  show ?thesis
    unfolding InterpolateSample_density_iff[OF assms(1) ne] ts n av by auto
qed

theorem InterpolateSample_single_sample_witness:
  "fmlookup solo_store ''solo'' = Some solo_samples \<and> fmdom solo_samples = {|1000|}
   \<and> InterpolateSample solo_store ''solo'' (time_UnixMilli 1500)
       = Error (InsufficientDensity (time_UnixMilli 1500))"
proof -
  have l: "fmlookup solo_store ''solo'' = Some solo_samples" by (simp add: solo_store_def)
  have d: "fmdom solo_samples = {|1000|}" by (simp add: solo_samples_def)
  have u: "UnixMilli (time_UnixMilli 1500) = 1500" by (simp add: UnixMilli_def time_UnixMilli_def)
  from InterpolateSample_single_sample[OF l d, of "time_UnixMilli 1500"] l d u
  show ?thesis by simp
qed

text \<open>
  C5 (fails on the code). The claim: the scan to the left ends on the nearest sample at or
  before the anchor that has the reading, or on index 0 when the start is reached. The
  code: the loop decrements the index before it tests \<open>\<le> 0\<close>, so from an anchor \<open>\<ge> 1\<close>
  it ends on index 1 and never reads index 0. For the device \<open>pump\<close> and a query at
  900 ms the anchor is index 1, which has no temperature; index 0 has one (20), and so has
  index 2, where the scan to the right ends. The scan to the left ends on index 1, and
  \<^verbatim>\<open>InterpolateSample\<close> panics on the nil field.
\<close>

theorem left_scan_stops_before_index_0:
  "PopulateSamples pump_files = Inr pump_store
   \<and> sorted_list_of_fset (fmdom pump_samples) = [0, 1000, 2000, 3000]
   \<and> Search 4 (\<lambda>index. 900 \<le> [0, 1000, 2000, 3000::int] ! nat index) = 1
   \<and> reading [0, 1000, 2000, 3000] pump_samples ChTemperature 0 = Some (Fin 20)
   \<and> left_scan [0, 1000, 2000, 3000] pump_samples ChTemperature 1
        = Inr (1000, (dense_Sample 1000 2)\<lparr>Temperature := None\<rparr>)
   \<and> right_scan [0, 1000, 2000, 3000] pump_samples ChTemperature 4 1
        = Inr (2000, (dense_Sample 2000 3)\<lparr>Temperature := Some (Fin 22)\<rparr>)
   \<and> InterpolateSample pump_store ''pump'' (time_UnixMilli 900) = Panic NilReading"
proof -
  have pop: "PopulateSamples pump_files = Inr pump_store" by code_simp
  have l: "fmlookup pump_store ''pump'' = Some pump_samples" by (simp add: pump_store_def)
  have ts: "sorted_list_of_fset (fmdom pump_samples) = [0, 1000, 2000, 3000]"
    "fcard (fmdom pump_samples) = 4"
    by code_simp+
  have ne: "fmdom pump_samples \<noteq> {||}" by code_simp
  have av: "averageInterval [0, 1000, 2000, 3000] 4 = 750"
    using averageInterval_eval[of "[0, 1000, 2000, 3000]" 4] by simp
  have an: "Search 4 (\<lambda>index. 900 \<le> [0, 1000, 2000, 3000::int] ! nat index) = 1" by code_simp
  have rd: "reading [0, 1000, 2000, 3000] pump_samples ChTemperature 0 = Some (Fin 20)"
    by code_simp
  have ls: "left_scan [0, 1000, 2000, 3000] pump_samples ChTemperature 1
        = Inr (1000, (dense_Sample 1000 2)\<lparr>Temperature := None\<rparr>)"
    by code_simp
  have rs: "right_scan [0, 1000, 2000, 3000] pump_samples ChTemperature 4 1
        = Inr (2000, (dense_Sample 2000 3)\<lparr>Temperature := Some (Fin 22)\<rparr>)"
    by code_simp
  have rs': "right_scan [0, 1000, 2000, 3000] pump_samples ChTemperature (int 4) 1
        = Inr (2000, (dense_Sample 2000 3)\<lparr>Temperature := Some (Fin 22)\<rparr>)"
    using rs by simp
  have f: "interpolate_field [0, 1000, 2000, 3000] pump_samples 4 900 1 ChTemperature
        = Inl NilReading"
    unfolding interpolate_field_def ls rs' by simp
  have fs: "interpolate_fields [0, 1000, 2000, 3000] pump_samples 4 900 1 channels
        (new_Sample (time_UnixMilli 900)) = Panic NilReading"
    by (simp add: channels_def f)
  have u: "UnixMilli (time_UnixMilli 900) = 900" by (simp add: UnixMilli_def time_UnixMilli_def)
  have p: "InterpolateSample pump_store ''pump'' (time_UnixMilli 900) = Panic NilReading"
    unfolding InterpolateSample_unfold[OF l ne] Let_def
    by (simp add: ts av an fs u)
  show ?thesis using pop ts(1) an rd ls rs p by blast
qed

text \<open>
  C6 (fails on the code). The claim: a query at a stored timestamp returns the stored
  values of that sample. The code: there is no case for equal left and right timestamps,
  the blend divides by their sum, and for the sample stored at 0 ms the sum is 0: the
  quotient 0/0 is NaN and every channel of the returned sample is NaN, where the stored
  sample has 20.
\<close>

theorem InterpolateSample_at_stored_epoch:
  "fcard (fmdom epoch_samples) = 3
   \<and> fmlookup epoch_samples 0 = Some (dense_Sample 0 20)
   \<and> Temperature (dense_Sample 0 20) = Some (Fin 20)
   \<and> InterpolateSample epoch_store ''fan0'' (time_UnixMilli 0) = Ok (all_NaN (time_UnixMilli 0))
   \<and> Temperature (all_NaN (time_UnixMilli 0)) = Some NaN"
proof -
  have "fmlookup epoch_samples 0 = Some (dense_Sample 0 20)" by (simp add: epoch_samples_def)
  moreover have "Temperature (dense_Sample 0 20) = Some (Fin 20)" by (simp add: dense_Sample_def)
  moreover have "InterpolateSample epoch_store ''fan0'' (time_UnixMilli 0) = Ok (all_NaN (time_UnixMilli 0))"
    using epoch_InterpolateSample by (simp add: time_UnixMilli_def)
  moreover have "Temperature (all_NaN (time_UnixMilli 0)) = Some NaN" by (simp add: all_NaN_def)
  ultimately show ?thesis using epoch_timestamps(2) by blast
qed

text \<open>
  C7 (fails on the code). The claim: a returned value lies between the left and the right
  value. The code: when the left and right timestamps add up to 0 the position is a
  quotient by zero, its cosine is NaN, and so is the returned value: with both values 20
  the result is NaN, which is neither \<open>\<ge> 20\<close> nor \<open>\<le> 20\<close>.
\<close>

theorem blend_not_between:
  "left_scan [0, 1, 2] epoch_samples ChPeakVelocityX 0 = Inr (0, dense_Sample 0 20)
   \<and> right_scan [0, 1, 2] epoch_samples ChPeakVelocityX 3 0 = Inr (0, dense_Sample 0 20)
   \<and> Field ChPeakVelocityX (dense_Sample 0 20) = Some (Fin 20)
   \<and> blend 0 0 0 (Fin 20) (Fin 20) = NaN
   \<and> (\<exists>s. InterpolateSample epoch_store ''fan0'' 0 = Ok s \<and> Field ChPeakVelocityX s = Some NaN)
   \<and> \<not> fle (Fin 20) NaN \<and> \<not> fle NaN (Fin 20)"
proof -
  have "left_scan [0, 1, 2] epoch_samples ChPeakVelocityX 0 = Inr (0, dense_Sample 0 20)"
    by code_simp
  moreover have "right_scan [0, 1, 2] epoch_samples ChPeakVelocityX 3 0 = Inr (0, dense_Sample 0 20)"
    by code_simp
  moreover have "Field ChPeakVelocityX (dense_Sample 0 20) = Some (Fin 20)"
    by (rule dense_Sample_Field)
  moreover have "blend 0 0 0 (Fin 20) (Fin 20) = NaN" by (simp add: blend_zero_sum)
  moreover have "\<exists>s. InterpolateSample epoch_store ''fan0'' 0 = Ok s \<and> Field ChPeakVelocityX s = Some NaN"
    using epoch_InterpolateSample by (simp add: all_NaN_def)
  moreover have "\<not> fle (Fin 20) NaN" "\<not> fle NaN (Fin 20)" by simp_all
  ultimately show ?thesis by blast
qed

text \<open>
  C8. For two walks over well-formed files that read the same rows, in any order of the
  files and of the rows, no two rows writing the same device, timestamp and channel:
  \<^verbatim>\<open>PopulateSamples\<close> builds the same store, and the store holds every row's value, in the
  sample of its device and timestamp. So two files with a row each for the same
  timestamp give one sample with both channels, whichever file is read first.
\<close>

theorem PopulateSamples_order_independent:
  assumes "list_all well_formed files" and "list_all well_formed files'"
    and "mset (rows_of_files files) = mset (rows_of_files files')"
    and "distinct (map triplet (rows_of_files files))"
  shows "PopulateSamples files = PopulateSamples files'
       \<and> (\<exists>hardware. PopulateSamples files = Inr hardware
            \<and> (\<forall>(h, f, t, v) \<in> set (rows_of_files files).
                  \<exists>samples s ch. fmlookup hardware h = Some samples \<and> fmlookup samples t = Some s
                    \<and> file_tag ch = f \<and> Field ch s = Some v))"
proof -
  have wf: "list_all (\<lambda>file. file_opens file \<and> list_all parsed (file_records file)) files"
    "list_all (\<lambda>file. file_opens file \<and> list_all parsed (file_records file)) files'"
    using assms(1,2) by (simp_all add: list_all_iff well_formed_def)
  have known: "\<forall>x \<in> set (rows_of_files files). \<exists>ch. fst (snd x) = file_tag ch"
    using rows_of_files_known[OF assms(1)] by blast
  have p: "PopulateSamples files = fold write_row (rows_of_files files) (Inr fmempty)"
    "PopulateSamples files' = fold write_row (rows_of_files files') (Inr fmempty)"
    unfolding PopulateSamples_def by (rule walk_fold[OF wf(1)], rule walk_fold[OF wf(2)])
  have eq: "PopulateSamples files = PopulateSamples files'"
    unfolding p using fold_write_row_permuted[OF known assms(4,3)] by simp
  from fold_write_row_Inr[OF known] obtain hardware where
    hw: "fold write_row (rows_of_files files) (Inr fmempty) = Inr hardware"
    by blast
  have "\<forall>(h, f, t, v) \<in> set (rows_of_files files).
          \<exists>samples s ch. fmlookup hardware h = Some samples \<and> fmlookup samples t = Some s
            \<and> file_tag ch = f \<and> Field ch s = Some v"
    using fold_write_row_stored[OF known assms(4) _ hw] by blast
  moreover have "PopulateSamples files = Inr hardware" using p(1) hw by simp
  ultimately show ?thesis using eq by blast
qed

theorem PopulateSamples_order_independent_witness:
  "list_all well_formed [temperature_file, velocity_file]
   \<and> list_all well_formed [velocity_file, temperature_file]
   \<and> mset (rows_of_files [temperature_file, velocity_file])
       = mset (rows_of_files [velocity_file, temperature_file])
   \<and> distinct (map triplet (rows_of_files [temperature_file, velocity_file]))
   \<and> PopulateSamples [temperature_file, velocity_file]
       = PopulateSamples [velocity_file, temperature_file]
   \<and> PopulateSamples [temperature_file, velocity_file] = Inr merged_store
   \<and> PopulateSamples [velocity_file, temperature_file] = Inr merged_store"
proof -
  have w: "list_all well_formed [temperature_file, velocity_file]"
    "list_all well_formed [velocity_file, temperature_file]"
    by code_simp+
  have m: "mset (rows_of_files [temperature_file, velocity_file])
       = mset (rows_of_files [velocity_file, temperature_file])"
    by (simp add: rows_of_files_def rows_of_def temperature_file_def velocity_file_def)
  have d: "distinct (map triplet (rows_of_files [temperature_file, velocity_file]))"
    by code_simp
  have e: "PopulateSamples [temperature_file, velocity_file] = Inr merged_store"
    by code_simp
  from PopulateSamples_order_independent[OF w m d] w m d e show ?thesis by simp
qed



text \<open>
  C10 (corrected). The claim: with a count of 0, \<open>From\<close> before \<open>To\<close> and a known
  device, the handler divides by zero and panics. The code: the division is in the post
  statement of the loop, which runs after the body; when the interpolation at \<open>From\<close>
  fails, the body has already answered with status 500.
\<close>

theorem Handle_Count_zero_counterexample:
  "HasSamples fan1_store (Id_req (tabulate_request 700 4000 0))
   \<and> Before (From (tabulate_request 700 4000 0)) (To (tabulate_request 700 4000 0))
   \<and> Count (tabulate_request 700 4000 0) = 0
   \<and> Handle fan1_store (tabulate_request 700 4000 0) = Some (Responded StatusInternalServerError)"
proof -
  let ?rq = "tabulate_request 700 4000 0"
  have h: "HasSamples fan1_store (Id_req ?rq)"
    by (simp add: HasSamples_def tabulate_request_def fan1_lookup)
  have b: "Before (From ?rq) (To ?rq)"
    by (simp add: tabulate_request_def Before_def time_UnixMilli_def)
  have u: "UnixMilli (time_UnixMilli 700) = 700" by (simp add: UnixMilli_def time_UnixMilli_def)
  have e: "InterpolateSample fan1_store (Id_req ?rq) (From ?rq)
             = Error (InsufficientDensity (time_UnixMilli 700))"
    unfolding tabulate_request_def
    using InterpolateSample_density_iff[OF fan1_lookup fan1_nonempty, of "time_UnixMilli 700"]
    by (simp add: fan1_timestamps fan1_averageInterval u)
  have "tabulate_loop fan1_store ?rq (From ?rq) fmempty
          = Some (Inl (Responded StatusInternalServerError))"
    using b e by (subst tabulate_loop.simps) simp
  then show ?thesis using h b by (simp add: Handle_def tabulate_request_def)
qed

text \<open>
  C10, as amended. With a count of 0 and \<open>From\<close> before \<open>To\<close>, if the interpolation at
  \<open>From\<close> succeeds, the post statement of the first iteration divides by zero and the
  handler panics. Nothing checks the count before.
\<close>

theorem Handle_Count_zero:
  assumes "Before (From requestData) (To requestData)" and "Count requestData = 0"
    and "InterpolateSample hardware (Id_req requestData) (From requestData) = Ok s"
  shows "Handle hardware requestData = Some (Panicked IntegerDivideByZero)"
proof -
  have "tabulate_loop hardware requestData (From requestData) fmempty
          = Some (Inl (Panicked IntegerDivideByZero))"
    using assms by (subst tabulate_loop.simps) (simp add: post_statement_def)
  moreover have "HasSamples hardware (Id_req requestData)"
    by (rule InterpolateSample_Ok_HasSamples[OF assms(3)])
  ultimately show ?thesis by (simp add: Handle_def)
qed

theorem Handle_Count_zero_witness:
  "Before (From (tabulate_request 1000 4000 0)) (To (tabulate_request 1000 4000 0))
   \<and> Count (tabulate_request 1000 4000 0) = 0
   \<and> (\<exists>s. InterpolateSample fan1_store (Id_req (tabulate_request 1000 4000 0))
             (From (tabulate_request 1000 4000 0)) = Ok s)
   \<and> Handle fan1_store (tabulate_request 1000 4000 0) = Some (Panicked IntegerDivideByZero)"
proof -
  let ?rq = "tabulate_request 1000 4000 0"
  have b: "Before (From ?rq) (To ?rq)"
    by (simp add: tabulate_request_def Before_def time_UnixMilli_def)
  have c: "Count ?rq = 0" by (simp add: tabulate_request_def)
  obtain s where s: "InterpolateSample fan1_store (Id_req ?rq) (From ?rq) = Ok s"
    using fan1_request_Ok[of 1000 4000 0] by auto
  from Handle_Count_zero[OF b c s] b c s show ?thesis by blast
qed

end
